theory Spec2Isabelle
  imports
    Main
    "HOL-Library.Char_ord"
    "HOL-Library.List_Lexorder"
    "HOL-Library.Product_Lexorder"
    "HOL-Library.Multiset"
begin

section \<open>modpath-cpp: the migration planner of \<^verbatim>\<open>modpath_cpp/planner.py\<close>\<close>

text \<open>
  A shallow embedding of the planner. Python's unbounded integers are \<^typ>\<open>int\<close>,
  its strings are \<^typ>\<open>string\<close>, exceptions are values of a sum type, and the file
  system the planner reads is an explicit argument.
\<close>

subsection \<open>Strings\<close>

text \<open>
  \<^verbatim>\<open>str.lower()\<close> on the letters \<open>A\<close> to \<open>Z\<close>; every other character of this
  model's alphabet is left as it is.
\<close>

definition lower_char :: "char \<Rightarrow> char" where
  "lower_char c =
     (case map_of (zip ''ABCDEFGHIJKLMNOPQRSTUVWXYZ'' ''abcdefghijklmnopqrstuvwxyz'') c of
        Some l \<Rightarrow> l
      | None \<Rightarrow> c)"

definition lower :: "string \<Rightarrow> string" where
  "lower s = map lower_char s"

text \<open>\<^verbatim>\<open>str(n)\<close> for an integer, as an f-string prints it.\<close>

fun str_nat :: "nat \<Rightarrow> string" where
  "str_nat n =
     (if n < 10 then [''0123456789'' ! n]
      else str_nat (n div 10) @ [''0123456789'' ! (n mod 10)])"

declare str_nat.simps [simp del]

definition str_int :: "int \<Rightarrow> string" where
  "str_int i = (if i < 0 then CHR ''-'' # str_nat (nat (- i)) else str_nat (nat i))"

text \<open>\<^verbatim>\<open>s.split(sep)\<close> for a one-character separator.\<close>

fun split_on :: "char \<Rightarrow> string \<Rightarrow> string list" where
  "split_on sep [] = [[]]"
| "split_on sep (c # cs) =
     (if c = sep then [] # split_on sep cs
      else (case split_on sep cs of
              [] \<Rightarrow> [[c]]
            | w # ws \<Rightarrow> (c # w) # ws))"

text \<open>\<^verbatim>\<open>s.rfind(c)\<close>: the index of the last occurrence, \<open>None\<close> for Python's \<open>-1\<close>.\<close>

fun rfind :: "char \<Rightarrow> string \<Rightarrow> nat option" where
  "rfind c [] = None"
| "rfind c (x # xs) =
     (case rfind c xs of
        Some i \<Rightarrow> Some (Suc i)
      | None \<Rightarrow> (if x = c then Some 0 else None))"

subsection \<open>Paths\<close>

text \<open>
  A \<^verbatim>\<open>pathlib\<close> POSIX path: its root (\<open>''''\<close> for a relative path, \<open>''/''\<close>, or
  \<open>''//''\<close> for exactly two leading slashes) and its components. The constructor drops
  empty components and single dots, as \<^verbatim>\<open>Path(s)\<close> does.
\<close>

datatype path = PurePath (root: string) (parts: "string list")

definition Path :: "string \<Rightarrow> path" where
  "Path s =
     PurePath
       (if take 2 s = ''//'' \<and> take 3 s \<noteq> ''///'' then ''//''
        else if take 1 s = ''/'' then ''/''
        else '''')
       (filter (\<lambda>p. p \<noteq> '''' \<and> p \<noteq> ''.'') (split_on CHR ''/'' s))"

definition is_absolute :: "path \<Rightarrow> bool" where
  "is_absolute p = (root p \<noteq> '''')"

text \<open>The operator \<^verbatim>\<open>a / b\<close>: an absolute right operand replaces the left one.\<close>

definition joinpath :: "path \<Rightarrow> path \<Rightarrow> path" where
  "joinpath a b = (if root b \<noteq> '''' then b else PurePath (root a) (parts a @ parts b))"

definition parent :: "path \<Rightarrow> path" where
  "parent p = (if parts p = [] then p else PurePath (root p) (butlast (parts p)))"

definition name :: "path \<Rightarrow> string" where
  "name p = (if parts p = [] then '''' else last (parts p))"

text \<open>
  \<^verbatim>\<open>PurePath.suffix\<close>: the part of the name from its last dot on, unless that dot is
  the first or the last character of the name.
\<close>

definition suffix :: "path \<Rightarrow> string" where
  "suffix p =
     (let n = name p in
      case rfind CHR ''.'' n of
        None \<Rightarrow> ''''
      | Some i \<Rightarrow> (if 0 < i \<and> i + 1 < length n then drop i n else ''''))"

subsection \<open>Risk scorer\<close>

text \<open>
  \<^verbatim>\<open>_risk_score\<close>: the running total \<open>risk\<close> and the list \<open>rationale\<close> are threaded
  through the four \<^verbatim>\<open>if\<close> statements in the order of the source.
\<close>

definition risk_score :: "path \<Rightarrow> int \<Rightarrow> int \<Rightarrow> bool \<Rightarrow> int \<times> string list" where
  "risk_score header include_frequency macro_count in_cycle =
     (let risk0 = 10;
          rationale0 =
            [''included '' @ str_int include_frequency @ '' time(s) across scanned files''];
          (risk1, rationale1) =
            (if macro_count \<noteq> 0 then
               (let macro_penalty = min 55 (macro_count * 5) in
                (risk0 + macro_penalty,
                 rationale0 @
                   [if macro_count \<ge> 8
                    then ''macro-heavy: '' @ str_int macro_count @ '' #define directives''
                    else ''contains '' @ str_int macro_count @ '' #define directives'']))
             else (risk0, rationale0 @ [''no #define directives found'']));
          (risk2, rationale2) =
            (if in_cycle
             then (risk1 + 30, rationale1 @ [''participates in an include cycle''])
             else (risk1, rationale1));
          (risk3, rationale3) =
            (if lower (suffix header) = ''.h''
             then (risk2 + 10, rationale2 @ [''.h extension may indicate C/C++ mixed usage''])
             else (risk2, rationale2));
          (risk4, rationale4) =
            (if include_frequency \<le> 1
             then (risk3 + 8, rationale3 @ [''low reuse means lower migration payoff''])
             else if include_frequency \<ge> 4
             then (max 0 (risk3 - 6), rationale3 @ [''high reuse improves migration payoff''])
             else (risk3, rationale3))
      in (max 0 (min 100 risk4), rationale4))"

definition risk_level :: "int \<Rightarrow> string" where
  "risk_level score =
     (if score \<le> 30 then ''low'' else if score \<le> 65 then ''medium'' else ''high'')"

definition recommendation :: "int \<Rightarrow> bool \<Rightarrow> string" where
  "recommendation risk_score_v in_cycle =
     (if in_cycle then ''refactor include cycle before module migration''
      else if risk_score_v \<le> 30 then ''P1 header unit candidate''
      else if risk_score_v \<le> 65 then ''P2 named module pilot''
      else ''defer until macro usage is reduced'')"

text \<open>
  The formula of the specification, word for word: the extension penalty applies when
  the extension is exactly \<open>.h\<close>.
\<close>

definition spec_risk_score :: "path \<Rightarrow> int \<Rightarrow> int \<Rightarrow> bool \<Rightarrow> int" where
  "spec_risk_score header include_frequency macro_count in_cycle =
     (let total =
            10
            + (if macro_count > 0 then min 55 (macro_count * 5) else 0)
            + (if in_cycle then 30 else 0)
            + (if suffix header = ''.h'' then 10 else 0);
          adjusted =
            (if include_frequency \<le> 1 then total + 8
             else if include_frequency \<ge> 4 then max 0 (total - 6)
             else total)
      in max 0 (min 100 adjusted))"

text \<open>The same formula with the extension compared without regard to letter case.\<close>

definition spec_risk_score_nocase :: "path \<Rightarrow> int \<Rightarrow> int \<Rightarrow> bool \<Rightarrow> int" where
  "spec_risk_score_nocase header include_frequency macro_count in_cycle =
     (let total =
            10
            + (if macro_count > 0 then min 55 (macro_count * 5) else 0)
            + (if in_cycle then 30 else 0)
            + (if lower (suffix header) = ''.h'' then 10 else 0);
          adjusted =
            (if include_frequency \<le> 1 then total + 8
             else if include_frequency \<ge> 4 then max 0 (total - 6)
             else total)
      in max 0 (min 100 adjusted))"

subsection \<open>Translation units, candidates and the report\<close>

record translation_unit =
  tu_path :: path
  tu_include_dirs :: "path list"
  tu_std_flag :: string

record candidate =
  cand_header :: string
  cand_include_frequency :: int
  cand_macro_defines :: int
  cand_in_cycle :: bool
  cand_risk_score :: int
  cand_risk_level :: string
  cand_recommendation :: string
  cand_rationale :: "string list"
  cand_suggested_module :: string

text \<open>One entry of \<^verbatim>\<open>unresolved_includes\<close>: the keys \<^verbatim>\<open>from\<close> and \<^verbatim>\<open>include\<close>.\<close>

record unresolved_include =
  unres_from :: string
  unres_include :: string

text \<open>One readiness check: the keys \<^verbatim>\<open>title\<close>, \<^verbatim>\<open>status\<close> and \<^verbatim>\<open>details\<close>.\<close>

record readiness_check =
  chk_title :: string
  chk_status :: string
  chk_details :: string

record phase_plan =
  p1_goal :: string
  p1_actions :: "string list"
  p2_goal :: string
  p2_actions :: "string list"
  p3_goal :: string
  p3_checks :: "readiness_check list"
  p3_actions :: "string list"

record planner_report =
  rep_input_file :: string
  rep_project_root :: string
  rep_translation_units :: int
  rep_scanned_headers :: int
  rep_cycle_header_count :: int
  rep_candidates :: "candidate list"
  rep_phases :: phase_plan
  rep_readiness_checks :: "readiness_check list"
  rep_unresolved_includes :: "unresolved_include list"

text \<open>The \<^verbatim>\<open>summary\<close> object of \<^verbatim>\<open>PlannerReport.to_dict\<close>.\<close>

record report_summary =
  sum_translation_units :: int
  sum_scanned_headers :: int
  sum_cycle_header_count :: int
  sum_unresolved_include_count :: int

definition to_dict_summary :: "planner_report \<Rightarrow> report_summary" where
  "to_dict_summary r =
     \<lparr> sum_translation_units = rep_translation_units r,
       sum_scanned_headers = rep_scanned_headers r,
       sum_cycle_header_count = rep_cycle_header_count r,
       sum_unresolved_include_count = int (length (rep_unresolved_includes r)) \<rparr>"

subsection \<open>Sorting and slicing\<close>

text \<open>
  \<^verbatim>\<open>list.sort(key=..., reverse=True)\<close>: a stable sort that keeps the original order
  of elements with equal keys, which CPython obtains by reversing the list before and
  after a stable ascending sort.
\<close>

definition sort_reverse :: "('a \<Rightarrow> 'k::linorder) \<Rightarrow> 'a list \<Rightarrow> 'a list" where
  "sort_reverse key xs = rev (sort_key key (rev xs))"

text \<open>\<^verbatim>\<open>xs[:n]\<close>: a negative \<open>n\<close> counts from the end of the list.\<close>

definition slice_to :: "int \<Rightarrow> 'a list \<Rightarrow> 'a list" where
  "slice_to n xs =
     (if 0 \<le> n then take (nat n) xs else take (nat (int (length xs) + n)) xs)"

text \<open>The sort key of the ranking, a tuple compared lexicographically.\<close>

definition rank_key :: "candidate \<Rightarrow> int \<times> int \<times> int \<times> string" where
  "rank_key c =
     (cand_include_frequency c * 12 - cand_risk_score c,
      cand_include_frequency c,
      - cand_risk_score c,
      cand_header c)"

definition rank_candidates :: "candidate list \<Rightarrow> candidate list" where
  "rank_candidates candidates = sort_reverse rank_key candidates"

text \<open>
  The order of the specification, in its words: primary key descending, then include
  frequency descending, then risk score ascending, then header path descending.
\<close>

definition spec_primary :: "candidate \<Rightarrow> int" where
  "spec_primary c = cand_include_frequency c * 12 - cand_risk_score c"

definition spec_ranks_before :: "candidate \<Rightarrow> candidate \<Rightarrow> bool" where
  "spec_ranks_before a b =
     (spec_primary a > spec_primary b
      \<or> (spec_primary a = spec_primary b
          \<and> (cand_include_frequency a > cand_include_frequency b
              \<or> (cand_include_frequency a = cand_include_frequency b
                  \<and> (cand_risk_score a < cand_risk_score b
                      \<or> (cand_risk_score a = cand_risk_score b
                          \<and> cand_header a \<ge> cand_header b))))))"

subsection \<open>Readiness checks\<close>

text \<open>\<^verbatim>\<open>sub in s\<close> for strings.\<close>

fun contains :: "string \<Rightarrow> string \<Rightarrow> bool" where
  "contains sub [] = (sub = [])"
| "contains sub (c # cs) = (take (length sub) (c # cs) = sub \<or> contains sub cs)"

definition is_digit :: "char \<Rightarrow> bool" where
  "is_digit c = (c \<in> set ''0123456789'')"

definition digit_value :: "char \<Rightarrow> int" where
  "digit_value c =
     (case map_of (zip ''0123456789'' [0, 1, 2, 3, 4, 5, 6, 7, 8, 9]) c of
        Some d \<Rightarrow> d
      | None \<Rightarrow> 0)"

text \<open>\<^verbatim>\<open>int(s)\<close> for a non-empty string of decimal digits.\<close>

definition int_of_digits :: "string \<Rightarrow> int" where
  "int_of_digits ds = foldl (\<lambda>acc d. acc * 10 + digit_value d) 0 ds"

text \<open>
  \<^verbatim>\<open>re.search(r"\+\+(\d+)", value)\<close>: the digits of the leftmost place where two
  plus signs are followed by at least one digit.
\<close>

fun search_plusplus_digits :: "string \<Rightarrow> string option" where
  "search_plusplus_digits [] = None"
| "search_plusplus_digits (c # cs) =
     (if c = CHR ''+'' \<and> take 1 cs = ''+'' \<and> takeWhile is_digit (drop 1 cs) \<noteq> []
      then Some (takeWhile is_digit (drop 1 cs))
      else search_plusplus_digits cs)"

definition is_cxx20_or_newer :: "string \<Rightarrow> bool" where
  "is_cxx20_or_newer std_flag =
     (let v = lower std_flag in
      if v = ''unknown'' then False
      else if contains ''c++2a'' v \<or> contains ''c++2b'' v then True
      else (case search_plusplus_digits v of
              None \<Rightarrow> False
            | Some ds \<Rightarrow> int_of_digits ds \<ge> 20))"

definition build_readiness_checks ::
  "translation_unit list \<Rightarrow> (path \<times> int) list \<Rightarrow> path set \<Rightarrow> int \<Rightarrow> readiness_check list"
where
  "build_readiness_checks tus macro_counts cycle_nodes unresolved_count =
     (let non_cxx20 = filter (\<lambda>tu. \<not> is_cxx20_or_newer (tu_std_flag tu)) tus;
          heavy_macro_headers =
            map fst (filter (\<lambda>(header, macro_count). macro_count \<ge> 8) macro_counts)
      in [ \<lparr> chk_title = ''C++20 compiler mode coverage'',
             chk_status = (if non_cxx20 = [] then ''pass'' else ''warn''),
             chk_details =
               (if non_cxx20 = [] then ''All translation units appear to use C++20+ flags''
                else str_int (int (length non_cxx20))
                       @ '' TU(s) are below C++20 or missing -std flag'') \<rparr>,
           \<lparr> chk_title = ''Include cycle cleanup'',
             chk_status = (if cycle_nodes = {} then ''pass'' else ''warn''),
             chk_details =
               (if cycle_nodes = {} then ''No include cycles detected''
                else str_int (int (card cycle_nodes)) @ '' header(s) are part of cycle(s)'') \<rparr>,
           \<lparr> chk_title = ''Macro-heavy header reduction'',
             chk_status = (if heavy_macro_headers = [] then ''pass'' else ''warn''),
             chk_details =
               (if heavy_macro_headers = [] then ''No macro-heavy headers detected''
                else str_int (int (length heavy_macro_headers))
                       @ '' header(s) have >= 8 #define directives'') \<rparr>,
           \<lparr> chk_title = ''Include resolution quality'',
             chk_status = (if unresolved_count = 0 then ''pass'' else ''warn''),
             chk_details =
               (if unresolved_count = 0 then ''All scanned includes resolved''
                else str_int unresolved_count
                       @ '' unresolved include(s); verify include paths'') \<rparr> ])"

subsection \<open>Phases\<close>

text \<open>\<^verbatim>\<open>sep.join(xs)\<close>.\<close>

fun join :: "string \<Rightarrow> string list \<Rightarrow> string" where
  "join sep [] = []"
| "join sep [x] = x"
| "join sep (x # y # ys) = x @ sep @ join sep (y # ys)"

text \<open>
  \<^verbatim>\<open>Counter.most_common()\<close>: the items in insertion order, sorted by count,
  highest first, with a stable sort.
\<close>

definition most_common :: "(string \<times> int) list \<Rightarrow> (string \<times> int) list" where
  "most_common counter = sort_reverse snd counter"

definition build_phases ::
  "candidate list \<Rightarrow> (string \<times> int) list \<Rightarrow> readiness_check list \<Rightarrow> phase_plan"
where
  "build_phases candidates include_tokens readiness_checks =
     (let p1_project =
            take 5 (filter (\<lambda>c. cand_recommendation c = ''P1 header unit candidate''
                               \<and> cand_include_frequency c \<ge> 2) candidates);
          p1_system =
            take 5 (filter (\<lambda>(token, count). take 1 token = ''<'' \<and> count \<ge> 2)
                      (most_common include_tokens));
          p1_a =
            map (\<lambda>c. ''Convert '' @ cand_header c @ '' to a header unit pilot (risk ''
                        @ str_int (cand_risk_score c) @ '')'') p1_project;
          p1_b =
            (if p1_system \<noteq> [] then
               p1_a @ [''Evaluate toolchain support for standard/third-party header units: ''
                        @ join '', ''
                            (map (\<lambda>(token, count). token @ '' ('' @ str_int count @ ''x)'')
                               p1_system)]
             else p1_a);
          p1_c =
            (if p1_b = []
             then [''Start with one low-risk, high-frequency project header as a pilot'']
             else p1_b);
          p2_candidates =
            take 5 (filter (\<lambda>c. cand_risk_score c \<le> 65 \<and> \<not> cand_in_cycle c
                               \<and> cand_include_frequency c \<ge> 2) candidates);
          p2_a =
            (if p2_candidates \<noteq> [] then
               map (\<lambda>c. ''Prototype named module '' @ [CHR 0x27] @ cand_suggested_module c
                           @ [CHR 0x27] @ '' from '' @ cand_header c) p2_candidates
             else [''No safe named-module candidates yet; reduce macro usage and break cycles first''])
      in \<lparr> p1_goal = ''Reduce parse cost by importing stable headers as header units.'',
           p1_actions = p1_c,
           p2_goal = ''Promote stable components to named modules with explicit interfaces.'',
           p2_actions = p2_a,
           p3_goal = ''Prepare for adopting import std where supported by toolchain.'',
           p3_checks = readiness_checks,
           p3_actions =
             [''Ensure all TUs compile in C++20+ mode'',
              ''Eliminate include cycles and shrink macro-heavy public headers'',
              ''Validate compiler/libstdc++ or libc++ support for import std in CI''] \<rparr>)"

text \<open>\<^verbatim>\<open>str(path)\<close>: a path without root and components prints as a dot.\<close>

definition str_path :: "path \<Rightarrow> string" where
  "str_path p =
     (if root p = '''' \<and> parts p = [] then ''.'' else root p @ join ''/'' (parts p))"

text \<open>
  The last part of \<^verbatim>\<open>analyze_compile_commands\<close>, from the ranking of the candidates to
  the report. Its arguments are the values that the earlier parts of the function have
  computed: the absolute path of the compile database, the project root, the translation
  units, the include-token counter, every unresolved quoted include, the macro counts in
  insertion order, the scanned headers, the cycle nodes, and the unranked candidates.
\<close>

definition rank_and_report ::
  "path \<Rightarrow> path \<Rightarrow> translation_unit list \<Rightarrow> (string \<times> int) list \<Rightarrow> unresolved_include list
     \<Rightarrow> (path \<times> int) list \<Rightarrow> path set \<Rightarrow> path set \<Rightarrow> candidate list \<Rightarrow> int
     \<Rightarrow> planner_report"
where
  "rank_and_report compile_commands project_root tus include_tokens unresolved_includes
       macro_counts scanned_headers cycle_nodes candidates0 top_n =
     (let candidates = slice_to top_n (rank_candidates candidates0);
          readiness_checks =
            build_readiness_checks tus macro_counts cycle_nodes
              (int (length unresolved_includes));
          phases = build_phases candidates include_tokens readiness_checks
      in \<lparr> rep_input_file = str_path compile_commands,
           rep_project_root = str_path project_root,
           rep_translation_units = int (length tus),
           rep_scanned_headers = int (card scanned_headers),
           rep_cycle_header_count = int (card cycle_nodes),
           rep_candidates = candidates,
           rep_phases = phases,
           rep_readiness_checks = readiness_checks,
           rep_unresolved_includes = take 50 unresolved_includes \<rparr>)"

subsection \<open>Exceptions, the file system and the library\<close>

text \<open>
  The exceptions that the planner raises, catches or lets through. \<open>OSError\<close> stands
  for \<^verbatim>\<open>OSError\<close> and its subclasses other than \<^verbatim>\<open>FileNotFoundError\<close>
  (\<^verbatim>\<open>PermissionError\<close>, a name that is too long, an I/O error), and \<open>ValueError\<close>
  for \<^verbatim>\<open>ValueError\<close> and its subclasses other than \<^verbatim>\<open>json.JSONDecodeError\<close>.
\<close>

datatype py_exception =
  FileNotFoundError
  | JSONDecodeError
  | ValueError
  | TypeError
  | OSError
  | RuntimeError
  | RecursionError

text \<open>What a handler \<^verbatim>\<open>except OSError\<close> catches.\<close>

definition is_OSError :: "py_exception \<Rightarrow> bool" where
  "is_OSError e = (e = OSError \<or> e = FileNotFoundError)"

text \<open>
  What opening a file and iterating over its lines does: \<open>OpenFails\<close> when
  \<^verbatim>\<open>path.open\<close> raises \<^verbatim>\<open>OSError\<close> (permission denied, a directory), \<open>ReadFails ls\<close>
  when the lines \<open>ls\<close> are delivered and the next read raises \<^verbatim>\<open>OSError\<close>, and
  \<open>ReadsAll ls\<close> when the file is read to its end. Lines keep their final newline.
  The files are opened with \<^verbatim>\<open>errors="ignore"\<close>, so decoding never raises.
\<close>

datatype read_outcome = OpenFails | ReadFails "string list" | ReadsAll "string list"

text \<open>
  The file system as the planner observes it. \<^verbatim>\<open>Path.exists\<close> returns a truth value
  or raises: it lets every error of \<^verbatim>\<open>stat\<close> through except a missing file, so a
  path below a directory that may not be searched raises \<^verbatim>\<open>PermissionError\<close> and a
  name that is too long raises \<^verbatim>\<open>OSError\<close>. \<^verbatim>\<open>Path.resolve\<close> returns the resolved
  path or raises (\<^verbatim>\<open>ValueError\<close> for a NUL character, \<^verbatim>\<open>RuntimeError\<close> for a loop
  of symbolic links, \<^verbatim>\<open>OSError\<close>). The last field is the outcome of reading a file
  as text.
\<close>

record file_system =
  fs_exists :: "path \<Rightarrow> py_exception + bool"
  fs_resolve :: "path \<Rightarrow> py_exception + path"
  fs_read :: "path \<Rightarrow> read_outcome"

text \<open>
  A value decoded by \<^verbatim>\<open>json.load\<close>: \<^verbatim>\<open>None\<close>, a \<^verbatim>\<open>bool\<close>, an \<^verbatim>\<open>int\<close>, a
  \<^verbatim>\<open>str\<close>, a \<^verbatim>\<open>list\<close> or a \<^verbatim>\<open>dict\<close> with its keys in insertion order (numbers
  with a fraction or an exponent are left out of the model).
\<close>

datatype json =
  JNull
  | JBool bool
  | JInt int
  | JStr string
  | JArr "json list"
  | JObj "(string \<times> json) list"

text \<open>
  Library functions taken as given: \<^verbatim>\<open>shlex.split\<close> (\<open>None\<close> when it raises
  \<^verbatim>\<open>ValueError\<close>), \<^verbatim>\<open>str\<close> of a decoded value, opening the compile database
  followed by \<^verbatim>\<open>json.load\<close>, which returns the decoded value or raises, and Python's
  classification of characters: \<^verbatim>\<open>str.isspace\<close>, which the class \<^verbatim>\<open>\s\<close> of a
  regular expression, \<^verbatim>\<open>str.strip\<close> and \<^verbatim>\<open>str.split\<close> follow, and
  \<^verbatim>\<open>str.isalnum\<close>, which together with the underscore makes the class \<^verbatim>\<open>\w\<close>.
\<close>

record py_library =
  lib_shlex_split :: "string \<Rightarrow> string list option"
  lib_str :: "json \<Rightarrow> string"
  lib_json_load :: "path \<Rightarrow> py_exception + json"
  lib_isspace :: "char \<Rightarrow> bool"
  lib_isalnum :: "char \<Rightarrow> bool"

subsection \<open>Include resolver\<close>

text \<open>
  The first loop of \<^verbatim>\<open>_resolve_include\<close> calls \<^verbatim>\<open>resolve\<close> on each candidate in
  turn; the first call that raises ends the function.
\<close>

fun resolve_each :: "file_system \<Rightarrow> path list \<Rightarrow> py_exception + path list" where
  "resolve_each fs [] = Inr []"
| "resolve_each fs (p # ps) =
     (case fs_resolve fs p of
        Inl e \<Rightarrow> Inl e
      | Inr resolved \<Rightarrow>
          (case resolve_each fs ps of
             Inl e \<Rightarrow> Inl e
           | Inr rest \<Rightarrow> Inr (resolved # rest)))"

text \<open>
  The last loop of \<^verbatim>\<open>_resolve_include\<close>: the first candidate that exists. A call of
  \<^verbatim>\<open>exists\<close> that raises ends the loop with that exception, also when a later
  candidate exists.
\<close>

fun first_existing :: "file_system \<Rightarrow> path list \<Rightarrow> py_exception + path option" where
  "first_existing fs [] = Inr None"
| "first_existing fs (candidate # rest) =
     (case fs_exists fs candidate of
        Inl e \<Rightarrow> Inl e
      | Inr found \<Rightarrow> if found then Inr (Some candidate) else first_existing fs rest)"

text \<open>The list \<^verbatim>\<open>candidates\<close> that \<^verbatim>\<open>_resolve_include\<close> builds before that loop.\<close>

definition include_candidates ::
  "file_system \<Rightarrow> path \<Rightarrow> char \<Rightarrow> path \<Rightarrow> path list \<Rightarrow> py_exception + path list"
where
  "include_candidates fs include_path include_kind including_file include_dirs =
     resolve_each fs
       ((if include_kind = CHR 0x22
         then [joinpath (parent including_file) include_path]
         else [])
        @ map (\<lambda>include_dir. joinpath include_dir include_path) include_dirs)"

definition resolve_include ::
  "file_system \<Rightarrow> string \<Rightarrow> char \<Rightarrow> path \<Rightarrow> path list \<Rightarrow> py_exception + path option"
where
  "resolve_include fs include_name include_kind including_file include_dirs =
     (let include_path = Path include_name in
      case (if is_absolute include_path then fs_exists fs include_path else Inr False) of
        Inl e \<Rightarrow> Inl e
      | Inr found \<Rightarrow>
          if found then
            (case fs_resolve fs include_path of
               Inl e \<Rightarrow> Inl e
             | Inr resolved \<Rightarrow> Inr (Some resolved))
          else
            (case include_candidates fs include_path include_kind including_file
                    include_dirs of
               Inl e \<Rightarrow> Inl e
             | Inr candidates \<Rightarrow> first_existing fs candidates))"

subsection \<open>Scanning a file for includes and defines\<close>

text \<open>The word characters \<^verbatim>\<open>\w\<close> that decide the word boundary \<^verbatim>\<open>\b\<close>.\<close>

definition is_word_char :: "py_library \<Rightarrow> char \<Rightarrow> bool" where
  "is_word_char lib c = (lib_isalnum lib c \<or> c = CHR ''_'')"

text \<open>\<^verbatim>\<open>s.strip()\<close>.\<close>

definition strip :: "py_library \<Rightarrow> string \<Rightarrow> string" where
  "strip lib s = rev (dropWhile (lib_isspace lib) (rev (dropWhile (lib_isspace lib) s)))"

text \<open>
  \<^verbatim>\<open>INCLUDE_RE.match(line)\<close> for \<^verbatim>\<open>^\s*#\s*include\s*([<"])([^">]+)[">]\<close>: the two
  groups of the match, the second one stripped as \<^verbatim>\<open>_parse_includes\<close> does. No step of
  the expression can match in two ways, so the match is found without backtracking.
\<close>

definition match_include :: "py_library \<Rightarrow> string \<Rightarrow> (char \<times> string) option" where
  "match_include lib line =
     (case dropWhile (lib_isspace lib) line of
        [] \<Rightarrow> None
      | hash # after_hash \<Rightarrow>
          if hash \<noteq> CHR ''#'' then None
          else
            (let s = dropWhile (lib_isspace lib) after_hash in
             if take 7 s \<noteq> ''include'' then None
             else
               (case dropWhile (lib_isspace lib) (drop 7 s) of
                  [] \<Rightarrow> None
                | kind # after_kind \<Rightarrow>
                    if kind \<noteq> CHR ''<'' \<and> kind \<noteq> CHR 0x22 then None
                    else
                      (let body = takeWhile (\<lambda>c. c \<noteq> CHR 0x22 \<and> c \<noteq> CHR ''>'') after_kind;
                           rest = dropWhile (\<lambda>c. c \<noteq> CHR 0x22 \<and> c \<noteq> CHR ''>'') after_kind
                       in if body = [] \<or> rest = [] then None
                          else Some (kind, strip lib body)))))"

text \<open>\<^verbatim>\<open>DEFINE_RE.match(line)\<close> for \<^verbatim>\<open>^\s*#\s*define\b\<close>.\<close>

definition match_define :: "py_library \<Rightarrow> string \<Rightarrow> bool" where
  "match_define lib line =
     (case dropWhile (lib_isspace lib) line of
        [] \<Rightarrow> False
      | hash # after_hash \<Rightarrow>
          hash = CHR ''#''
          \<and> (let s = dropWhile (lib_isspace lib) after_hash in
              take 6 s = ''define''
              \<and> (case drop 6 s of [] \<Rightarrow> True | c # _ \<Rightarrow> \<not> is_word_char lib c)))"

definition HEADER_SUFFIXES :: "string set" where
  "HEADER_SUFFIXES = {''.h'', ''.hh'', ''.hpp'', ''.hxx'', ''.inc'', ''.ipp''}"

definition is_header :: "path \<Rightarrow> bool" where
  "is_header p = (lower (suffix p) \<in> HEADER_SUFFIXES)"

text \<open>The loop body of \<^verbatim>\<open>_parse_includes\<close> over the lines that have been read.\<close>

fun scan_includes :: "py_library \<Rightarrow> string list \<Rightarrow> (char \<times> string) list" where
  "scan_includes lib [] = []"
| "scan_includes lib (line # rest) =
     (case match_include lib line of
        Some m \<Rightarrow> m # scan_includes lib rest
      | None \<Rightarrow> scan_includes lib rest)"

text \<open>The loop body of \<^verbatim>\<open>_count_defines\<close> over the lines that have been read.\<close>

fun scan_defines :: "py_library \<Rightarrow> string list \<Rightarrow> int" where
  "scan_defines lib [] = 0"
| "scan_defines lib (line # rest) =
     (if match_define lib line then 1 + scan_defines lib rest else scan_defines lib rest)"

text \<open>
  The body of the \<^verbatim>\<open>try\<close> statement of \<^verbatim>\<open>_parse_includes\<close>: opening the file or
  reading a line may raise \<^verbatim>\<open>OSError\<close>, and then the includes found so far are lost.
\<close>

definition try_parse_includes ::
  "py_library \<Rightarrow> read_outcome \<Rightarrow> py_exception + (char \<times> string) list"
where
  "try_parse_includes lib outcome =
     (case outcome of
        OpenFails \<Rightarrow> Inl OSError
      | ReadFails ls \<Rightarrow> Inl OSError
      | ReadsAll ls \<Rightarrow> Inr (scan_includes lib ls))"

text \<open>
  \<^verbatim>\<open>_parse_includes\<close>: the test \<^verbatim>\<open>path.exists()\<close> stands before the \<^verbatim>\<open>try\<close>
  statement, so an exception that it raises leaves the function; the handler of the
  \<^verbatim>\<open>try\<close> statement catches \<^verbatim>\<open>OSError\<close> only.
\<close>

definition parse_includes ::
  "file_system \<Rightarrow> py_library \<Rightarrow> path \<Rightarrow> py_exception + (char \<times> string) list"
where
  "parse_includes fs lib p =
     (case fs_exists fs p of
        Inl e \<Rightarrow> Inl e
      | Inr found \<Rightarrow>
          if \<not> found then Inr []
          else (case try_parse_includes lib (fs_read fs p) of
                  Inl e \<Rightarrow> (if is_OSError e then Inr [] else Inl e)
                | Inr includes \<Rightarrow> Inr includes))"

definition try_count_defines :: "py_library \<Rightarrow> read_outcome \<Rightarrow> py_exception + int" where
  "try_count_defines lib outcome =
     (case outcome of
        OpenFails \<Rightarrow> Inl OSError
      | ReadFails ls \<Rightarrow> Inl OSError
      | ReadsAll ls \<Rightarrow> Inr (scan_defines lib ls))"

text \<open>
  \<^verbatim>\<open>_count_defines\<close>: here too \<^verbatim>\<open>path.exists()\<close> is evaluated before the
  \<^verbatim>\<open>try\<close> statement, and before \<^verbatim>\<open>_is_header\<close>.
\<close>

definition count_defines :: "file_system \<Rightarrow> py_library \<Rightarrow> path \<Rightarrow> py_exception + int" where
  "count_defines fs lib p =
     (case fs_exists fs p of
        Inl e \<Rightarrow> Inl e
      | Inr found \<Rightarrow>
          if \<not> found \<or> \<not> is_header p then Inr 0
          else (case try_count_defines lib (fs_read fs p) of
                  Inl e \<Rightarrow> (if is_OSError e then Inr 0 else Inl e)
                | Inr n \<Rightarrow> Inr n))"

subsection \<open>The compile database\<close>

text \<open>Python's truth value of a decoded value, as \<^verbatim>\<open>if not file_value\<close> tests it.\<close>

definition truthy :: "json \<Rightarrow> bool" where
  "truthy v =
     (case v of
        JNull \<Rightarrow> False
      | JBool b \<Rightarrow> b
      | JInt i \<Rightarrow> i \<noteq> 0
      | JStr s \<Rightarrow> s \<noteq> ''''
      | JArr xs \<Rightarrow> xs \<noteq> []
      | JObj kvs \<Rightarrow> kvs \<noteq> [])"

text \<open>\<^verbatim>\<open>entry.get(key)\<close>: \<^verbatim>\<open>None\<close> for a missing key.\<close>

definition dict_get :: "(string \<times> json) list \<Rightarrow> string \<Rightarrow> json" where
  "dict_get entry key = (case map_of entry key of Some v \<Rightarrow> v | None \<Rightarrow> JNull)"

text \<open>
  \<^verbatim>\<open>Path(value)\<close> for a decoded value: \<^verbatim>\<open>pathlib\<close> raises \<^verbatim>\<open>TypeError\<close> for an
  argument that is not a string.
\<close>

definition path_of_json :: "json \<Rightarrow> py_exception + path" where
  "path_of_json v = (case v of JStr s \<Rightarrow> Inr (Path s) | _ \<Rightarrow> Inl TypeError)"

text \<open>\<^verbatim>\<open>_load_compile_commands\<close>.\<close>

definition load_compile_commands ::
  "file_system \<Rightarrow> py_library \<Rightarrow> path \<Rightarrow> py_exception + (string \<times> json) list list"
where
  "load_compile_commands fs lib p =
     (case fs_exists fs p of
        Inl e \<Rightarrow> Inl e
      | Inr found \<Rightarrow>
          if \<not> found then Inl FileNotFoundError
          else (case lib_json_load lib p of
                  Inl e \<Rightarrow> Inl e
                | Inr payload \<Rightarrow>
                    (case payload of
                       JArr entries \<Rightarrow>
                         Inr (concat (map (\<lambda>entry. case entry of JObj kvs \<Rightarrow> [kvs] | _ \<Rightarrow> [])
                                        entries))
                     | _ \<Rightarrow> Inl ValueError)))"

text \<open>
  \<^verbatim>\<open>s.split()\<close>: the maximal runs of characters that are not white space, for the
  given classification of characters.
\<close>

fun split_whitespace :: "(char \<Rightarrow> bool) \<Rightarrow> string \<Rightarrow> string list" where
  "split_whitespace isspace [] = []"
| "split_whitespace isspace (c # cs) =
     (if isspace c then split_whitespace isspace cs
      else (case cs of
              [] \<Rightarrow> [[c]]
            | d # ds \<Rightarrow>
                if isspace d then [c] # split_whitespace isspace cs
                else (case split_whitespace isspace cs of
                        [] \<Rightarrow> [[c]]
                      | w # ws \<Rightarrow> (c # w) # ws)))"

definition extract_args :: "py_library \<Rightarrow> (string \<times> json) list \<Rightarrow> string list" where
  "extract_args lib entry =
     (case dict_get entry ''arguments'' of
        JArr arguments \<Rightarrow> map (lib_str lib) arguments
      | _ \<Rightarrow>
          (case dict_get entry ''command'' of
             JStr command \<Rightarrow>
               (case lib_shlex_split lib command of
                  Some words \<Rightarrow> words
                | None \<Rightarrow> split_whitespace (lib_isspace lib) command)
           | _ \<Rightarrow> []))"

text \<open>
  The \<^verbatim>\<open>while\<close> loop of \<^verbatim>\<open>_extract_include_dirs\<close>: the values that follow or are
  attached to an include option, in order; \<open>None\<close> where the source leaves
  \<^verbatim>\<open>value\<close> unset.
\<close>

fun include_values :: "string list \<Rightarrow> string option list" where
  "include_values [] = []"
| "include_values [token] =
     [if take 2 token = ''-I'' \<and> length token > 2 then Some (drop 2 token)
      else if take 2 token = ''/I'' \<and> length token > 2 then Some (drop 2 token)
      else if take 8 token = ''-isystem'' \<and> length token > 8 then Some (drop 8 token)
      else None]"
| "include_values (token # next_token # rest) =
     (if token \<in> {''-I'', ''/I'', ''-isystem''} then Some next_token # include_values rest
      else (if take 2 token = ''-I'' \<and> length token > 2 then Some (drop 2 token)
            else if take 2 token = ''/I'' \<and> length token > 2 then Some (drop 2 token)
            else if take 8 token = ''-isystem'' \<and> length token > 8 then Some (drop 8 token)
            else None) # include_values (next_token # rest))"

text \<open>\<^verbatim>\<open>_unique_paths\<close>: resolve every path and keep its first occurrence.\<close>

fun unique_resolved :: "path list \<Rightarrow> path list \<Rightarrow> path list" where
  "unique_resolved seen [] = []"
| "unique_resolved seen (resolved # rest) =
     (if resolved \<in> set seen then unique_resolved seen rest
      else resolved # unique_resolved (resolved # seen) rest)"

definition unique_paths :: "file_system \<Rightarrow> path list \<Rightarrow> py_exception + path list" where
  "unique_paths fs paths =
     (case resolve_each fs paths of
        Inl e \<Rightarrow> Inl e
      | Inr resolved \<Rightarrow> Inr (unique_resolved [] resolved))"

text \<open>
  \<^verbatim>\<open>_extract_include_dirs\<close>: every value that is not empty is resolved, relative to
  \<open>directory\<close> unless it is absolute, and the list goes through \<^verbatim>\<open>_unique_paths\<close>.
\<close>

definition extract_include_dirs ::
  "file_system \<Rightarrow> string list \<Rightarrow> path \<Rightarrow> py_exception + path list"
where
  "extract_include_dirs fs args directory =
     (case resolve_each fs
             (concat (map (\<lambda>v. case v of
                                  None \<Rightarrow> []
                                | Some val \<Rightarrow>
                                    if val = '''' then []
                                    else [if \<not> is_absolute (Path val)
                                          then joinpath directory (Path val)
                                          else Path val])
                        (include_values args))) of
        Inl e \<Rightarrow> Inl e
      | Inr include_dirs \<Rightarrow> unique_paths fs include_dirs)"

fun extract_std_flag :: "string list \<Rightarrow> string" where
  "extract_std_flag [] = ''unknown''"
| "extract_std_flag (token # rest) =
     (if take 5 token = ''-std='' then lower (drop 5 token)
      else if take 5 token = ''/std:'' then lower (drop 5 token)
      else extract_std_flag rest)"

text \<open>
  The body of the loop of \<^verbatim>\<open>_collect_translation_units\<close> for one entry: \<open>Inr None\<close>
  when the entry is skipped, \<open>Inl TypeError\<close> when \<^verbatim>\<open>Path\<close> is given a value that is
  not a string, and the exception of \<^verbatim>\<open>resolve\<close> when that call raises.
\<close>

definition collect_entry ::
  "file_system \<Rightarrow> py_library \<Rightarrow> path \<Rightarrow> (string \<times> json) list
     \<Rightarrow> py_exception + translation_unit option"
where
  "collect_entry fs lib compile_commands_path entry =
     (let file_value = dict_get entry ''file'' in
      if \<not> truthy file_value then Inr None
      else
        (let directory_raw = dict_get entry ''directory'' in
         case (if truthy directory_raw
               then (case path_of_json directory_raw of
                       Inl e \<Rightarrow> Inl e
                     | Inr directory \<Rightarrow>
                         if \<not> is_absolute directory
                         then fs_resolve fs (joinpath (parent compile_commands_path) directory)
                         else fs_resolve fs directory)
               else fs_resolve fs (parent compile_commands_path)) of
           Inl e \<Rightarrow> Inl e
         | Inr directory \<Rightarrow>
             (case path_of_json file_value of
                Inl e \<Rightarrow> Inl e
              | Inr file_path \<Rightarrow>
                  (case (if \<not> is_absolute file_path
                         then fs_resolve fs (joinpath directory file_path)
                         else fs_resolve fs file_path) of
                     Inl e \<Rightarrow> Inl e
                   | Inr resolved_file \<Rightarrow>
                       (let args = extract_args lib entry in
                        case extract_include_dirs fs args directory of
                          Inl e \<Rightarrow> Inl e
                        | Inr include_dirs \<Rightarrow>
                            Inr (Some \<lparr> tu_path = resolved_file,
                                        tu_include_dirs = include_dirs,
                                        tu_std_flag = extract_std_flag args \<rparr>))))))"

fun collect_translation_units ::
  "file_system \<Rightarrow> py_library \<Rightarrow> (string \<times> json) list list \<Rightarrow> path
     \<Rightarrow> py_exception + translation_unit list"
where
  "collect_translation_units fs lib [] compile_commands_path = Inr []"
| "collect_translation_units fs lib (entry # entries) compile_commands_path =
     (case collect_entry fs lib compile_commands_path entry of
        Inl e \<Rightarrow> Inl e
      | Inr tu_opt \<Rightarrow>
          (case collect_translation_units fs lib entries compile_commands_path of
             Inl e \<Rightarrow> Inl e
           | Inr tus \<Rightarrow> Inr ((case tu_opt of None \<Rightarrow> [] | Some tu \<Rightarrow> [tu]) @ tus)))"

text \<open>
  The first statements of \<^verbatim>\<open>analyze_compile_commands\<close>: resolve the path of the
  database, load it, collect the translation units, and raise \<^verbatim>\<open>ValueError\<close> when
  there is none. The argument is the path after \<^verbatim>\<open>expanduser\<close>.
\<close>

definition load_translation_units ::
  "file_system \<Rightarrow> py_library \<Rightarrow> path \<Rightarrow> py_exception + translation_unit list"
where
  "load_translation_units fs lib compile_commands_path =
     (case fs_resolve fs compile_commands_path of
        Inl e \<Rightarrow> Inl e
      | Inr compile_commands \<Rightarrow>
          (case load_compile_commands fs lib compile_commands of
             Inl e \<Rightarrow> Inl e
           | Inr entries \<Rightarrow>
               (case collect_translation_units fs lib entries compile_commands of
                  Inl e \<Rightarrow> Inl e
                | Inr tus \<Rightarrow> if tus = [] then Inl ValueError else Inr tus)))"

text \<open>
  \<^verbatim>\<open>cli.main\<close> around the call of the analysis: \<^verbatim>\<open>FileNotFoundError\<close>,
  \<^verbatim>\<open>ValueError\<close> and \<^verbatim>\<open>json.JSONDecodeError\<close> are caught and give the return value
  2; a report gives 0; any other exception leaves \<^verbatim>\<open>main\<close> uncaught.
\<close>

datatype cli_outcome = Returns int | Uncaught py_exception

definition main_outcome :: "py_exception + 'r \<Rightarrow> cli_outcome" where
  "main_outcome analysis =
     (case analysis of
        Inl e \<Rightarrow>
          if e = FileNotFoundError \<or> e = ValueError \<or> e = JSONDecodeError
          then Returns 2
          else Uncaught e
      | Inr report \<Rightarrow> Returns 0)"

subsection \<open>Cycle detector\<close>

text \<open>
  The header graph is a \<^verbatim>\<open>dict\<close> from a header to the \<^verbatim>\<open>set\<close> of headers it
  includes. The model keeps the keys in the order of the dictionary and, for each key,
  the elements of its set in the order in which Python iterates over that set, since
  \<^verbatim>\<open>_detect_cycle_nodes\<close> iterates over both.
\<close>

type_synonym 'a graph = "('a \<times> 'a list) list"

text \<open>\<^verbatim>\<open>child in graph\<close> and \<^verbatim>\<open>graph.get(node, set())\<close>.\<close>

definition in_graph :: "'a graph \<Rightarrow> 'a \<Rightarrow> bool" where
  "in_graph graph node = (node \<in> set (map fst graph))"

definition graph_get :: "'a graph \<Rightarrow> 'a \<Rightarrow> 'a list" where
  "graph_get graph node = (case map_of graph node of Some children \<Rightarrow> children | None \<Rightarrow> [])"

text \<open>
  The variables that the nested function \<^verbatim>\<open>dfs\<close> shares with
  \<^verbatim>\<open>_detect_cycle_nodes\<close>; the top of \<open>stack\<close> is the last element of the list.
\<close>

record 'a dfs_state =
  dfs_cycle_nodes :: "'a set"
  dfs_visited :: "'a set"
  dfs_on_stack :: "'a set"
  dfs_stack :: "'a list"
  dfs_position :: "'a \<rightharpoonup> nat"

definition dfs_init :: "'a dfs_state" where
  "dfs_init =
     \<lparr> dfs_cycle_nodes = {}, dfs_visited = {}, dfs_on_stack = {}, dfs_stack = [],
       dfs_position = Map.empty \<rparr>"

text \<open>The four statements at the head of \<^verbatim>\<open>dfs\<close>.\<close>

definition dfs_enter :: "'a \<Rightarrow> 'a dfs_state \<Rightarrow> 'a dfs_state" where
  "dfs_enter node s =
     s \<lparr> dfs_visited := insert node (dfs_visited s),
         dfs_on_stack := insert node (dfs_on_stack s),
         dfs_position := (dfs_position s)(node \<mapsto> length (dfs_stack s)),
         dfs_stack := dfs_stack s @ [node] \<rparr>"

text \<open>
  The branch for a child that is on the stack: \<^verbatim>\<open>start = position.get(child, 0)\<close>
  and \<^verbatim>\<open>cycle_nodes.update(stack[start:])\<close>.
\<close>

definition dfs_flag :: "'a \<Rightarrow> 'a dfs_state \<Rightarrow> 'a dfs_state" where
  "dfs_flag child s =
     (let start = (case dfs_position s child of Some i \<Rightarrow> i | None \<Rightarrow> 0) in
      s \<lparr> dfs_cycle_nodes := dfs_cycle_nodes s \<union> set (drop start (dfs_stack s)) \<rparr>)"

text \<open>The three statements at the end of \<^verbatim>\<open>dfs\<close>.\<close>

definition dfs_leave :: "'a \<Rightarrow> 'a dfs_state \<Rightarrow> 'a dfs_state" where
  "dfs_leave node s =
     s \<lparr> dfs_stack := butlast (dfs_stack s),
         dfs_on_stack := dfs_on_stack s - {node},
         dfs_position := (dfs_position s)(node := None) \<rparr>"

text \<open>
  \<^verbatim>\<open>dfs\<close> and its loop over the children. The first argument is the number of
  nested calls that Python's recursion limit still allows; \<open>None\<close> is
  \<^verbatim>\<open>RecursionError\<close>.
\<close>

fun dfs :: "nat \<Rightarrow> 'a graph \<Rightarrow> 'a \<Rightarrow> 'a dfs_state \<Rightarrow> 'a dfs_state option"
  and dfs_children :: "nat \<Rightarrow> 'a graph \<Rightarrow> 'a list \<Rightarrow> 'a dfs_state \<Rightarrow> 'a dfs_state option"
where
  "dfs 0 graph node s = None"
| "dfs (Suc depth) graph node s =
     (case dfs_children depth graph (graph_get graph node) (dfs_enter node s) of
        None \<Rightarrow> None
      | Some s' \<Rightarrow> Some (dfs_leave node s'))"
| "dfs_children depth graph [] s = Some s"
| "dfs_children depth graph (child # rest) s =
     (if \<not> in_graph graph child then dfs_children depth graph rest s
      else if child \<notin> dfs_visited s then
        (case dfs depth graph child s of
           None \<Rightarrow> None
         | Some s' \<Rightarrow> dfs_children depth graph rest s')
      else if child \<in> dfs_on_stack s then dfs_children depth graph rest (dfs_flag child s)
      else dfs_children depth graph rest s)"

text \<open>The loop \<^verbatim>\<open>for node in graph\<close> of \<^verbatim>\<open>_detect_cycle_nodes\<close>.\<close>

fun dfs_roots :: "nat \<Rightarrow> 'a graph \<Rightarrow> 'a list \<Rightarrow> 'a dfs_state \<Rightarrow> 'a dfs_state option" where
  "dfs_roots limit graph [] s = Some s"
| "dfs_roots limit graph (node # rest) s =
     (if node \<notin> dfs_visited s then
        (case dfs limit graph node s of
           None \<Rightarrow> None
         | Some s' \<Rightarrow> dfs_roots limit graph rest s')
      else dfs_roots limit graph rest s)"

definition detect_cycle_nodes :: "nat \<Rightarrow> 'a graph \<Rightarrow> 'a set option" where
  "detect_cycle_nodes limit graph =
     map_option dfs_cycle_nodes (dfs_roots limit graph (map fst graph) dfs_init)"

subsection \<open>Invariants of the cycle detector\<close>

text \<open>
  The predicates of the correctness proof. A node is finished when its call of
  \<^verbatim>\<open>dfs\<close> has returned: it is visited and no longer on the stack.
\<close>

definition finished :: "'a dfs_state \<Rightarrow> 'a set" where
  "finished s = dfs_visited s - dfs_on_stack s"

definition stack_inv :: "'a dfs_state \<Rightarrow> bool" where
  "stack_inv s \<longleftrightarrow>
     dfs_on_stack s = set (dfs_stack s)
     \<and> distinct (dfs_stack s)
     \<and> dfs_on_stack s \<subseteq> dfs_visited s
     \<and> dom (dfs_position s) = dfs_on_stack s
     \<and> (\<forall>i<length (dfs_stack s). dfs_position s (dfs_stack s ! i) = Some i)"

definition done_child :: "'a dfs_state \<Rightarrow> 'a \<Rightarrow> 'a \<Rightarrow> bool" where
  "done_child s m c \<longleftrightarrow>
     c \<in> dfs_visited s
     \<and> (c \<in> dfs_on_stack s \<longrightarrow> c \<in> dfs_cycle_nodes s \<and> m \<in> dfs_cycle_nodes s)"

definition edge_inv :: "'a graph \<Rightarrow> 'a dfs_state \<Rightarrow> bool" where
  "edge_inv g s \<longleftrightarrow>
     (\<forall>m\<in>finished s. \<forall>c\<in>set (graph_get g m). in_graph g c \<longrightarrow> done_child s m c)
     \<and> (\<forall>a\<in>finished s. \<forall>b\<in>finished s.
           b \<in> set (graph_get g a) \<and> a \<in> set (graph_get g b) \<longrightarrow>
           a \<in> dfs_cycle_nodes s \<and> b \<in> dfs_cycle_nodes s)"

definition frame :: "'a dfs_state \<Rightarrow> 'a dfs_state \<Rightarrow> bool" where
  "frame s s' \<longleftrightarrow>
     dfs_stack s' = dfs_stack s
     \<and> dfs_on_stack s' = dfs_on_stack s
     \<and> dfs_position s' = dfs_position s
     \<and> dfs_visited s \<subseteq> dfs_visited s'
     \<and> dfs_cycle_nodes s \<subseteq> dfs_cycle_nodes s'"

subsection \<open>Example data\<close>

text \<open>A candidate as \<^verbatim>\<open>analyze_compile_commands\<close> builds it for a header outside any cycle.\<close>

definition example_candidate :: "string \<Rightarrow> int \<Rightarrow> int \<Rightarrow> candidate" where
  "example_candidate h f r =
     \<lparr> cand_header = h, cand_include_frequency = f, cand_macro_defines = 0,
       cand_in_cycle = False, cand_risk_score = r, cand_risk_level = risk_level r,
       cand_recommendation = recommendation r False, cand_rationale = [],
       cand_suggested_module = h \<rparr>"

text \<open>
  The white space among the ASCII characters, all that the examples contain.
\<close>

definition example_isspace :: "char \<Rightarrow> bool" where
  "example_isspace c =
     (c \<in> set [CHR 0x09, CHR 0x0A, CHR 0x0B, CHR 0x0C, CHR 0x0D,
                CHR 0x1C, CHR 0x1D, CHR 0x1E, CHR 0x1F, CHR 0x20])"

text \<open>
  A library whose \<^verbatim>\<open>json.load\<close> decodes the compile database to the given value,
  whose \<^verbatim>\<open>shlex.split\<close> is right for commands without quotes, escapes and comments,
  and which classifies the ASCII characters.
\<close>

definition example_lib :: "json \<Rightarrow> py_library" where
  "example_lib payload =
     \<lparr> lib_shlex_split = (\<lambda>command. Some (split_whitespace example_isspace command)),
       lib_str = (\<lambda>v. case v of JStr s \<Rightarrow> s | _ \<Rightarrow> ''''),
       lib_json_load = (\<lambda>p. Inr payload),
       lib_isspace = example_isspace,
       lib_isalnum =
         (\<lambda>c. c \<in> set ''abcdefghijklmnopqrstuvwxyzABCDEFGHIJKLMNOPQRSTUVWXYZ0123456789'') \<rparr>"

text \<open>
  A project tree without symbolic links. \<open>/p/include/x.h\<close>, \<open>/p/src/main.cpp\<close> and
  \<open>/p/src/util.h\<close> exist and can be read, \<open>/p/include/locked.h\<close> exists and cannot
  be opened, \<open>/p/include/torn.h\<close> fails after its first line. The directory
  \<open>/p/private\<close> may not be searched, so \<^verbatim>\<open>exists\<close> raises \<^verbatim>\<open>PermissionError\<close> for
  every path below it, and a path with a component of more than 255 characters raises
  \<^verbatim>\<open>OSError\<close> (file name too long).
\<close>

definition example_fs :: file_system where
  "example_fs =
     \<lparr> fs_exists =
         (\<lambda>p. if list_ex (\<lambda>part. 255 < length part) (parts p) then Inl OSError
               else if take 2 (parts p) = [''p'', ''private''] \<and> 2 < length (parts p)
               then Inl OSError
               else Inr (p \<in> set [Path ''/p/include/x.h'', Path ''/p/src/main.cpp'',
                                    Path ''/p/src/util.h'', Path ''/p/include/locked.h'',
                                    Path ''/p/include/torn.h'', Path ''/p/include'',
                                    Path ''/p/src'', Path ''/p/private'', Path ''/p''])),
       fs_resolve = (\<lambda>p. Inr p),
       fs_read = (\<lambda>p. if p = Path ''/p/include/x.h''
                         then ReadsAll [''#define X 1'' @ [CHR 0x0A], ''#include <vector>'' @ [CHR 0x0A]]
                       else if p = Path ''/p/src/main.cpp''
                         then ReadsAll [''#include '' @ [CHR 0x22] @ ''x.h'' @ [CHR 0x22, CHR 0x0A]]
                       else if p = Path ''/p/src/util.h''
                         then ReadsAll []
                       else if p = Path ''/p/include/torn.h''
                         then ReadFails [''#include <map>'' @ [CHR 0x0A]]
                       else OpenFails) \<rparr>"

text \<open>A tree that holds the compile database \<open>/p/compile_commands.json\<close>.\<close>

definition example_db_fs :: file_system where
  "example_db_fs =
     \<lparr> fs_exists = (\<lambda>p. Inr (p \<in> set [Path ''/p/compile_commands.json'', Path ''/p/main.cpp'',
                                         Path ''/p''])),
       fs_resolve = (\<lambda>p. Inr p),
       fs_read = (\<lambda>p. ReadsAll []) \<rparr>"

text \<open>
  Header graphs: two headers that include each other; and three headers where \<open>a\<close>
  includes \<open>b\<close> and \<open>c\<close>, \<open>b\<close> includes \<open>c\<close>, and \<open>c\<close> includes \<open>a\<close>,
  with the set of \<open>a\<close> iterated in either order.
\<close>

definition example_cycle_graph :: "path graph" where
  "example_cycle_graph =
     [(Path ''/p/include/core/cycle_a.hpp'', [Path ''/p/include/core/cycle_b.hpp'']),
      (Path ''/p/include/core/cycle_b.hpp'', [Path ''/p/include/core/cycle_a.hpp''])]"

definition example_graph_bc :: "path graph" where
  "example_graph_bc =
     [(Path ''/p/a.hpp'', [Path ''/p/b.hpp'', Path ''/p/c.hpp'']),
      (Path ''/p/b.hpp'', [Path ''/p/c.hpp'']),
      (Path ''/p/c.hpp'', [Path ''/p/a.hpp''])]"

definition example_graph_cb :: "path graph" where
  "example_graph_cb =
     [(Path ''/p/a.hpp'', [Path ''/p/c.hpp'', Path ''/p/b.hpp'']),
      (Path ''/p/b.hpp'', [Path ''/p/c.hpp'']),
      (Path ''/p/c.hpp'', [Path ''/p/a.hpp''])]"

section \<open>Properties\<close>

subsection \<open>Risk scorer\<close>

lemma suffix_a_hpp: "suffix (Path ''/p/a.hpp'') = ''.hpp''"
  by (simp add: suffix_def name_def Path_def)

lemma suffix_x_H: "suffix (Path ''/p/x.H'') = ''.H''"
  by (simp add: suffix_def name_def Path_def)

text \<open>
  C1, as stated, fails: a header with 8 macros, included 4 times, outside any cycle and
  with extension \<open>.hpp\<close> scores 10 + 40 - 6 = 44, below 50.
\<close>

theorem C1_counterexample:
  "\<not> 50 \<le> fst (risk_score (Path ''/p/a.hpp'') 4 8 False)"
  by (simp add: risk_score_def suffix_a_hpp lower_def lower_char_def)

text \<open>
  C1, amended: with macro count at least 8 the rationale holds the line
  \<open>macro-heavy: <count> #define directives\<close>, the score is at least 44, and it is at
  least 50 (base + 40) whenever the include frequency is below 4.
\<close>

theorem C1_macro_heavy:
  assumes "8 \<le> macro_count"
  shows "(''macro-heavy: '' @ str_int macro_count @ '' #define directives'')
           \<in> set (snd (risk_score header include_frequency macro_count in_cycle))
         \<and> 44 \<le> fst (risk_score header include_frequency macro_count in_cycle)
         \<and> (include_frequency < 4 \<longrightarrow>
              50 \<le> fst (risk_score header include_frequency macro_count in_cycle))"
  using assms by (simp add: risk_score_def Let_def)

theorem C1_macro_heavy_witness:
  "(8::int) \<le> 9
   \<and> ''macro-heavy: 9 #define directives''
        \<in> set (snd (risk_score (Path ''/p/a.hpp'') 2 9 True))
   \<and> 50 \<le> fst (risk_score (Path ''/p/a.hpp'') 2 9 True)"
  using C1_macro_heavy [of 9 "Path ''/p/a.hpp''" 2 True]
  by (simp add: str_int_def str_nat.simps)

text \<open>
  C2, as stated, fails: the code lowers the extension before comparing it, so a header
  \<open>x.H\<close> takes the extension penalty (score 20) where the formula with an exact
  comparison gives 10.
\<close>

theorem C2_counterexample:
  "fst (risk_score (Path ''/p/x.H'') 2 0 False) = 20
   \<and> spec_risk_score (Path ''/p/x.H'') 2 0 False = 10"
  by (simp add: risk_score_def spec_risk_score_def suffix_x_H lower_def lower_char_def)

text \<open>
  C2, amended: for every header, every non-negative macro count and every include
  frequency, the score is the formula of the specification with the extension compared
  to \<open>.h\<close> without regard to letter case.
\<close>

theorem C2_score_formula:
  assumes "0 \<le> macro_count"
  shows "fst (risk_score header include_frequency macro_count in_cycle)
         = spec_risk_score_nocase header include_frequency macro_count in_cycle"
  using assms by (simp add: risk_score_def spec_risk_score_nocase_def Let_def)

theorem C2_score_formula_witness:
  "(0::int) \<le> 12
   \<and> fst (risk_score (Path ''/p/x.H'') 5 12 True) = 99
   \<and> spec_risk_score_nocase (Path ''/p/x.H'') 5 12 True = 99"
  using C2_score_formula [of 12 "Path ''/p/x.H''" 5 True]
  by (simp add: spec_risk_score_nocase_def suffix_x_H lower_def lower_char_def)

text \<open>
  C6: a header in a cycle gets the cycle recommendation whatever its score; outside a
  cycle, a score up to 30 gets the header-unit pilot, 31 to 65 the named-module pilot,
  and a score above 65 is deferred.
\<close>

theorem C6_recommendation:
  "(in_cycle \<longrightarrow>
      recommendation score in_cycle = ''refactor include cycle before module migration'')
   \<and> (\<not> in_cycle \<and> score \<le> 30 \<longrightarrow>
      recommendation score in_cycle = ''P1 header unit candidate'')
   \<and> (\<not> in_cycle \<and> 31 \<le> score \<and> score \<le> 65 \<longrightarrow>
      recommendation score in_cycle = ''P2 named module pilot'')
   \<and> (\<not> in_cycle \<and> 65 < score \<longrightarrow>
      recommendation score in_cycle = ''defer until macro usage is reduced'')"
  by (simp add: recommendation_def)

theorem C6_recommendation_witness:
  "recommendation 5 True = ''refactor include cycle before module migration''
   \<and> recommendation 95 True = ''refactor include cycle before module migration''
   \<and> recommendation 30 False = ''P1 header unit candidate''
   \<and> recommendation 31 False = ''P2 named module pilot''
   \<and> recommendation 65 False = ''P2 named module pilot''
   \<and> recommendation 66 False = ''defer until macro usage is reduced''"
  using C6_recommendation [of True 5] C6_recommendation [of True 95]
    C6_recommendation [of False 30] C6_recommendation [of False 31]
    C6_recommendation [of False 65] C6_recommendation [of False 66]
  by simp

subsection \<open>Ranking\<close>

lemma spec_ranks_before_key: "spec_ranks_before a b \<longleftrightarrow> rank_key b \<le> rank_key a"
  by (auto simp: spec_ranks_before_def rank_key_def spec_primary_def less_eq_prod_def less_prod_def)

lemma sorted_wrt_sort_reverse:
  "sorted_wrt (\<lambda>a b. key b \<le> key a) (sort_reverse key xs)"
proof -
  have "sorted (map key (sort_key key (rev xs)))"
    by (rule sorted_sort_key)
  then have "sorted_wrt (\<lambda>a b. key a \<le> key b) (sort_key key (rev xs))"
    by (simp add: sorted_wrt_map)
  then show ?thesis
    by (simp add: sort_reverse_def sorted_wrt_rev)
qed

lemma mset_sort_reverse: "mset (sort_reverse key xs) = mset xs"
  by (simp add: sort_reverse_def)

lemma filter_eq_replicate_count: "filter (\<lambda>x. k = x) zs = replicate (count (mset zs) k) k"
  by (induction zs) auto

lemma sort_reverse_unique:
  assumes eq: "mset xs = mset ys" and inj: "inj_on key (set xs)"
  shows "sort_reverse key xs = sort_reverse key ys"
proof -
  have sets: "set ys = set xs"
    using eq by (metis set_mset_mset)
  have filt: "filter (\<lambda>x. key k = key x) zs = replicate (count (mset zs) k) k"
    if "k \<in> set xs" and "set zs \<subseteq> set xs" for k zs
  proof -
    have "filter (\<lambda>x. key k = key x) zs = filter (\<lambda>x. k = x) zs"
      using that inj by (intro filter_cong) (auto dest: inj_onD)
    then show ?thesis by (simp add: filter_eq_replicate_count)
  qed
  have "sort_key key (rev xs) = sort_key key (rev ys)"
  proof (rule properties_for_sort_key)
    show "mset (sort_key key (rev ys)) = mset (rev xs)"
      using eq by simp
    show "sorted (map key (sort_key key (rev ys)))"
      by (rule sorted_sort_key)
    fix k assume "k \<in> set (sort_key key (rev ys))"
    then have k: "k \<in> set xs" using sets by simp
    have "filter (\<lambda>x. key k = key x) (sort_key key (rev ys))
          = replicate (count (mset (sort_key key (rev ys))) k) k"
      using k sets by (intro filt) auto
    also have "\<dots> = replicate (count (mset (rev xs)) k) k"
      using eq by simp
    also have "\<dots> = filter (\<lambda>x. key k = key x) (rev xs)"
      using k by (intro filt [symmetric]) auto
    finally show "filter (\<lambda>x. key k = key x) (sort_key key (rev ys))
          = filter (\<lambda>x. key k = key x) (rev xs)" .
  qed
  then show ?thesis by (simp add: sort_reverse_def)
qed

lemma rank_key_inj:
  assumes "inj_on cand_header (set cs)"
  shows "inj_on rank_key (set cs)"
proof (rule inj_onI)
  fix a b assume "a \<in> set cs" "b \<in> set cs" "rank_key a = rank_key b"
  then have "cand_header a = cand_header b" by (simp add: rank_key_def)
  with assms \<open>a \<in> set cs\<close> \<open>b \<in> set cs\<close> show "a = b" by (auto dest: inj_onD)
qed

text \<open>
  C3: the candidates of the report are the ranked list cut to the first \<open>top\<close>; the
  ranked list is a rearrangement of the candidates in which every candidate stands
  before every later one in the order of the specification (primary key descending,
  include frequency descending, risk score ascending, header path descending); that
  order is total, two candidates that it does not separate agree on include frequency,
  risk score and header, and with pairwise distinct headers the ranked list does not
  depend on the order in which the candidates were given.
\<close>

theorem C3_ranking:
  "rep_candidates
     (rank_and_report compile_commands project_root tus include_tokens unresolved_includes
        macro_counts scanned_headers cycle_nodes cs top_n)
     = slice_to top_n (rank_candidates cs)
   \<and> sorted_wrt spec_ranks_before (rank_candidates cs)
   \<and> mset (rank_candidates cs) = mset cs
   \<and> (\<forall>a b. spec_ranks_before a b \<or> spec_ranks_before b a)
   \<and> (\<forall>a b. spec_ranks_before a b \<and> spec_ranks_before b a \<longrightarrow>
         cand_include_frequency a = cand_include_frequency b
         \<and> cand_risk_score a = cand_risk_score b
         \<and> cand_header a = cand_header b)
   \<and> (\<forall>ds. mset ds = mset cs \<and> inj_on cand_header (set cs) \<longrightarrow>
         rank_candidates ds = rank_candidates cs)"
proof (intro conjI allI impI)
  show "rep_candidates
     (rank_and_report compile_commands project_root tus include_tokens unresolved_includes
        macro_counts scanned_headers cycle_nodes cs top_n)
     = slice_to top_n (rank_candidates cs)"
    by (simp add: rank_and_report_def Let_def)
  have "sorted_wrt (\<lambda>a b. rank_key b \<le> rank_key a) (rank_candidates cs)"
    unfolding rank_candidates_def by (rule sorted_wrt_sort_reverse)
  then show "sorted_wrt spec_ranks_before (rank_candidates cs)"
    by (simp add: spec_ranks_before_key [abs_def])
  show "mset (rank_candidates cs) = mset cs"
    by (simp add: rank_candidates_def mset_sort_reverse)
  show "spec_ranks_before a b \<or> spec_ranks_before b a" for a b
    unfolding spec_ranks_before_key by (rule linear)
next
  fix a b assume "spec_ranks_before a b \<and> spec_ranks_before b a"
  then have "rank_key a = rank_key b"
    unfolding spec_ranks_before_key by auto
  then show "cand_include_frequency a = cand_include_frequency b"
    and "cand_risk_score a = cand_risk_score b"
    and "cand_header a = cand_header b"
    by (simp_all add: rank_key_def)
next
  fix ds assume h: "mset ds = mset cs \<and> inj_on cand_header (set cs)"
  then have "inj_on rank_key (set cs)" by (simp add: rank_key_inj)
  with h show "rank_candidates ds = rank_candidates cs"
    unfolding rank_candidates_def by (intro sort_reverse_unique [symmetric]) auto
qed

lemma ex_rank:
  "rank_candidates [example_candidate ''a.hpp'' 2 10, example_candidate ''b.hpp'' 2 10, example_candidate ''c.hpp'' 3 22]
   = [example_candidate ''c.hpp'' 3 22, example_candidate ''b.hpp'' 2 10, example_candidate ''a.hpp'' 2 10]"
  by (simp add: rank_candidates_def sort_reverse_def rank_key_def example_candidate_def)

theorem C3_ranking_witness:
  "rank_candidates
     [example_candidate ''a.hpp'' 2 10, example_candidate ''b.hpp'' 2 10,
      example_candidate ''c.hpp'' 3 22]
   = [example_candidate ''c.hpp'' 3 22, example_candidate ''b.hpp'' 2 10,
      example_candidate ''a.hpp'' 2 10]
   \<and> rank_candidates
     [example_candidate ''c.hpp'' 3 22, example_candidate ''a.hpp'' 2 10,
      example_candidate ''b.hpp'' 2 10]
   = [example_candidate ''c.hpp'' 3 22, example_candidate ''b.hpp'' 2 10,
      example_candidate ''a.hpp'' 2 10]
   \<and> sorted_wrt spec_ranks_before
       [example_candidate ''c.hpp'' 3 22, example_candidate ''b.hpp'' 2 10,
        example_candidate ''a.hpp'' 2 10]
   \<and> spec_ranks_before (example_candidate ''a.hpp'' 2 10) (example_candidate ''a.hpp'' 2 10)"
  using C3_ranking [of "Path ''/p/compile_commands.json''" "Path ''/p''" "[]" "[]" "[]" "[]" "{}" "{}"
      "[example_candidate ''a.hpp'' 2 10, example_candidate ''b.hpp'' 2 10,
        example_candidate ''c.hpp'' 3 22]" 0]
  by (simp add: ex_rank spec_ranks_before_def spec_primary_def example_candidate_def
        rank_candidates_def sort_reverse_def rank_key_def)

subsection \<open>Unresolved includes in the report\<close>

text \<open>
  C10: the report keeps the first 50 unresolved includes; the summary's
  \<open>unresolved_include_count\<close> is the length of that list, hence the minimum of 50 and
  the total and never above 50; the details of the check \<open>Include resolution quality\<close>
  print the total; with more than 50 unresolved includes the two numbers differ.
\<close>

theorem C10_unresolved_truncation:
  "rep_unresolved_includes
     (rank_and_report compile_commands project_root tus include_tokens unresolved
        macro_counts scanned_headers cycle_nodes cs top_n) = take 50 unresolved
   \<and> sum_unresolved_include_count (to_dict_summary
        (rank_and_report compile_commands project_root tus include_tokens unresolved
           macro_counts scanned_headers cycle_nodes cs top_n))
       = int (min 50 (length unresolved))
   \<and> sum_unresolved_include_count (to_dict_summary
        (rank_and_report compile_commands project_root tus include_tokens unresolved
           macro_counts scanned_headers cycle_nodes cs top_n)) \<le> 50
   \<and> chk_title (rep_readiness_checks
        (rank_and_report compile_commands project_root tus include_tokens unresolved
           macro_counts scanned_headers cycle_nodes cs top_n) ! 3)
       = ''Include resolution quality''
   \<and> chk_details (rep_readiness_checks
        (rank_and_report compile_commands project_root tus include_tokens unresolved
           macro_counts scanned_headers cycle_nodes cs top_n) ! 3)
       = (if unresolved = [] then ''All scanned includes resolved''
          else str_int (int (length unresolved)) @ '' unresolved include(s); verify include paths'')
   \<and> (50 < length unresolved \<longrightarrow>
        sum_unresolved_include_count (to_dict_summary
          (rank_and_report compile_commands project_root tus include_tokens unresolved
             macro_counts scanned_headers cycle_nodes cs top_n))
        \<noteq> int (length unresolved))"
  by (simp add: rank_and_report_def to_dict_summary_def build_readiness_checks_def Let_def)


theorem C10_unresolved_truncation_witness:
  "50 < length (replicate 51 \<lparr> unres_from = ''src/main.cpp'', unres_include = ''x.h'' \<rparr>)
   \<and> sum_unresolved_include_count (to_dict_summary
        (rank_and_report (Path ''/p/compile_commands.json'') (Path ''/p'') [] [] 
           (replicate 51 \<lparr> unres_from = ''src/main.cpp'', unres_include = ''x.h'' \<rparr>)
           [] {} {} [] 10)) = 50
   \<and> chk_details (rep_readiness_checks
        (rank_and_report (Path ''/p/compile_commands.json'') (Path ''/p'') [] [] 
           (replicate 51 \<lparr> unres_from = ''src/main.cpp'', unres_include = ''x.h'' \<rparr>)
           [] {} {} [] 10) ! 3)
       = ''51 unresolved include(s); verify include paths''"
  using C10_unresolved_truncation [of "Path ''/p/compile_commands.json''" "Path ''/p''" "[]" "[]"
      "replicate 51 \<lparr> unres_from = ''src/main.cpp'', unres_include = ''x.h'' \<rparr>"
      "[]" "{}" "{}" "[]" 10]
  by (simp add: str_int_def str_nat.simps)


subsection \<open>Include resolver\<close>

text \<open>
  As long as no call of \<^verbatim>\<open>exists\<close> or \<^verbatim>\<open>resolve\<close> raises, the resolver returns the
  resolved spelling when it is absolute and exists, and otherwise the first candidate
  that exists: the directory of the requesting file first for a quoted include, then
  the search directories in the order given.
\<close>

lemma resolve_each_returns:
  "\<forall>p\<in>set ps. fs_resolve fs p = Inr (res p) \<Longrightarrow> resolve_each fs ps = Inr (map res ps)"
  by (induction ps) auto

lemma first_existing_returns:
  "\<forall>c\<in>set cs. fs_exists fs c = Inr (ex c) \<Longrightarrow> first_existing fs cs = Inr (find ex cs)"
  by (induction cs) auto

lemma resolve_include_returns:
  assumes ex: "\<forall>p. fs_exists fs p = Inr (ex p)" and res: "\<forall>p. fs_resolve fs p = Inr (res p)"
  shows "resolve_include fs n k f dirs
         = Inr (if is_absolute (Path n) \<and> ex (Path n) then Some (res (Path n))
                else find ex
                       ((if k = CHR 0x22 then [res (joinpath (parent f) (Path n))] else [])
                        @ map (\<lambda>d. res (joinpath d (Path n))) dirs))"
proof -
  have c: "include_candidates fs (Path n) k f dirs
           = Inr ((if k = CHR 0x22 then [res (joinpath (parent f) (Path n))] else [])
                  @ map (\<lambda>d. res (joinpath d (Path n))) dirs)"
    unfolding include_candidates_def using res
    by (subst resolve_each_returns [where res = res]) (auto simp: comp_def)
  have "first_existing fs cs = Inr (find ex cs)" for cs
    using ex by (intro first_existing_returns) simp
  with c ex res show ?thesis
    by (simp add: resolve_include_def Let_def)
qed

lemma example_resolve_own_directory:
  "resolve_include example_fs ''util.h'' (CHR 0x22) (Path ''/p/src/main.cpp'')
     [Path ''/p/include''] = Inr (Some (Path ''/p/src/util.h''))
   \<and> resolve_include example_fs ''util.h'' (CHR ''<'') (Path ''/p/src/main.cpp'')
       [Path ''/p/include''] = Inr None
   \<and> resolve_include example_fs ''x.h'' (CHR 0x22) (Path ''/p/src/main.cpp'')
       [Path ''/p/other'', Path ''/p/include''] = Inr (Some (Path ''/p/include/x.h''))
   \<and> resolve_include example_fs ''/p/include/x.h'' (CHR ''<'') (Path ''/p/src/main.cpp'') []
       = Inr (Some (Path ''/p/include/x.h''))"
  by code_simp

text \<open>
  C4 says that the first candidate that exists on disk is returned and that the result
  is unresolved when none exists. \<^verbatim>\<open>_resolve_include\<close> calls \<^verbatim>\<open>exists\<close> on the
  candidates without a handler, so the code breaks this where such a call raises. A
  quoted include whose name has 300 characters names no file, and the code raises
  \<^verbatim>\<open>OSError\<close> where the claim gives unresolved. With the search directories
  \<open>/p/private\<close>, which may not be searched, and \<open>/p/include\<close>, which holds \<open>x.h\<close>,
  the code raises \<^verbatim>\<open>PermissionError\<close> and never reaches the candidate that exists.
\<close>

theorem C4_resolve_include_raises:
  "resolve_include example_fs (replicate 300 (CHR ''a'') @ ''.h'') (CHR 0x22)
     (Path ''/p/src/main.cpp'') [Path ''/p/include''] = Inl OSError
   \<and> resolve_include example_fs ''x.h'' (CHR ''<'') (Path ''/p/src/main.cpp'')
       [Path ''/p/private'', Path ''/p/include''] = Inl OSError
   \<and> fs_exists example_fs (Path ''/p/include/x.h'') = Inr True"
  by code_simp

subsection \<open>Unreadable headers\<close>

text \<open>
  When \<^verbatim>\<open>exists\<close> returns, a file that is missing, cannot be opened or fails while it
  is read gives no include and no define.
\<close>

lemma scan_degrades:
  assumes "fs_exists fs p = Inr found"
    and "\<not> found \<or> fs_read fs p = OpenFails \<or> (\<exists>ls. fs_read fs p = ReadFails ls)"
  shows "parse_includes fs lib p = Inr [] \<and> count_defines fs lib p = Inr 0"
  using assms
  by (auto simp: parse_includes_def count_defines_def try_parse_includes_def
        try_count_defines_def is_OSError_def)

lemma example_scan:
  "parse_includes example_fs (example_lib JNull) (Path ''/p/src/main.cpp'')
     = Inr [(CHR 0x22, ''x.h'')]
   \<and> parse_includes example_fs (example_lib JNull) (Path ''/p/include/x.h'')
       = Inr [(CHR ''<'', ''vector'')]
   \<and> count_defines example_fs (example_lib JNull) (Path ''/p/include/x.h'') = Inr 1
   \<and> parse_includes example_fs (example_lib JNull) (Path ''/p/include/torn.h'') = Inr []
   \<and> count_defines example_fs (example_lib JNull) (Path ''/p/include/locked.h'') = Inr 0
   \<and> parse_includes example_fs (example_lib JNull) (Path ''/p/include/missing.h'') = Inr []"
  by code_simp

text \<open>
  C8 says that for every header whose text cannot be read, permission denied included,
  the include scan returns the empty list, the macro count is 0 and the run goes on.
  In \<^verbatim>\<open>_parse_includes\<close> and \<^verbatim>\<open>_count_defines\<close> the test \<^verbatim>\<open>path.exists()\<close> stands
  before the \<^verbatim>\<open>try\<close> statement: for a header below a directory that may not be
  searched it raises \<^verbatim>\<open>PermissionError\<close>, which leaves both functions, and
  \<^verbatim>\<open>cli.main\<close> does not catch it either.
\<close>

theorem C8_scan_raises:
  "parse_includes example_fs (example_lib JNull) (Path ''/p/private/hidden.h'') = Inl OSError
   \<and> count_defines example_fs (example_lib JNull) (Path ''/p/private/hidden.h'') = Inl OSError
   \<and> main_outcome (parse_includes example_fs (example_lib JNull) (Path ''/p/private/hidden.h''))
       = Uncaught OSError"
  by code_simp

theorem C8_scan_raises_witness:
  "(\<exists>e. parse_includes example_fs (example_lib JNull) (Path ''/p/private/hidden.h'') = Inl e
         \<and> is_OSError e)
   \<and> main_outcome (count_defines example_fs (example_lib JNull) (Path ''/p/private/hidden.h''))
       = Uncaught OSError"
  using C8_scan_raises by (simp add: main_outcome_def is_OSError_def)

subsection \<open>Errors of the compile database\<close>

text \<open>
  C7 says that the analysis fails, with exit code 2, exactly when the compile database
  is missing, is not valid JSON, is not an array, or yields no translation unit, and
  that every other input gives a report and exit code 0. The code breaks this: for the
  database \<open>[{"file": 5}]\<close>, a valid JSON array whose entry has a \<open>file\<close> value,
  \<^verbatim>\<open>Path(5)\<close> raises \<^verbatim>\<open>TypeError\<close>, which \<^verbatim>\<open>cli.main\<close> does not catch: there is
  neither a report nor exit code 2.
\<close>

theorem C7_uncaught_type_error:
  "main_outcome
     (load_translation_units example_db_fs (example_lib (JArr [JObj [(''file'', JInt 5)]]))
        (Path ''/p/compile_commands.json'')) = Uncaught TypeError"
  by code_simp

subsection \<open>Cycle detector\<close>

lemma frame_refl: "frame s s"
  by (simp add: frame_def)

lemma frame_trans: "frame s t \<Longrightarrow> frame t u \<Longrightarrow> frame s u"
  by (auto simp: frame_def)

lemma done_child_frame: "done_child s m c \<Longrightarrow> frame s t \<Longrightarrow> done_child t m c"
  by (auto simp: done_child_def frame_def)

lemma enter_fields:
  "dfs_visited (dfs_enter n s) = insert n (dfs_visited s)"
  "dfs_on_stack (dfs_enter n s) = insert n (dfs_on_stack s)"
  "dfs_stack (dfs_enter n s) = dfs_stack s @ [n]"
  "dfs_position (dfs_enter n s) = (dfs_position s)(n \<mapsto> length (dfs_stack s))"
  "dfs_cycle_nodes (dfs_enter n s) = dfs_cycle_nodes s"
  by (simp_all add: dfs_enter_def)

lemma leave_fields:
  "dfs_visited (dfs_leave n s) = dfs_visited s"
  "dfs_on_stack (dfs_leave n s) = dfs_on_stack s - {n}"
  "dfs_stack (dfs_leave n s) = butlast (dfs_stack s)"
  "dfs_position (dfs_leave n s) = (dfs_position s)(n := None)"
  "dfs_cycle_nodes (dfs_leave n s) = dfs_cycle_nodes s"
  by (simp_all add: dfs_leave_def)

lemma flag_fields:
  "dfs_visited (dfs_flag c s) = dfs_visited s"
  "dfs_on_stack (dfs_flag c s) = dfs_on_stack s"
  "dfs_stack (dfs_flag c s) = dfs_stack s"
  "dfs_position (dfs_flag c s) = dfs_position s"
  "dfs_cycle_nodes (dfs_flag c s)
     = dfs_cycle_nodes s
       \<union> set (drop (case dfs_position s c of Some i \<Rightarrow> i | None \<Rightarrow> 0) (dfs_stack s))"
  by (simp_all add: dfs_flag_def Let_def)

lemma stack_inv_enter:
  assumes "stack_inv s" and "n \<notin> dfs_visited s"
  shows "stack_inv (dfs_enter n s)"
proof -
  from assms have nst: "n \<notin> set (dfs_stack s)"
    by (auto simp: stack_inv_def)
  have pos: "dfs_position (dfs_enter n s) ((dfs_stack s @ [n]) ! i) = Some i"
    if "i < length (dfs_stack s @ [n])" for i
  proof (cases "i < length (dfs_stack s)")
    case True
    then have "(dfs_stack s @ [n]) ! i = dfs_stack s ! i" by (simp add: nth_append)
    moreover from True nst have "dfs_stack s ! i \<noteq> n" by (metis nth_mem)
    moreover from True assms(1) have "dfs_position s (dfs_stack s ! i) = Some i"
      by (simp add: stack_inv_def)
    ultimately show ?thesis by (simp add: enter_fields)
  next
    case False
    with that have "i = length (dfs_stack s)" by simp
    then show ?thesis by (simp add: enter_fields)
  qed
  from assms nst show ?thesis
    unfolding stack_inv_def using pos by (auto simp: enter_fields)
qed

lemma finished_enter:
  "n \<notin> dfs_visited s \<Longrightarrow> finished (dfs_enter n s) = finished s"
  by (auto simp: finished_def enter_fields)

lemma edge_inv_enter:
  assumes "edge_inv g s" and "n \<notin> dfs_visited s"
  shows "edge_inv g (dfs_enter n s)"
  using assms unfolding edge_inv_def finished_enter [OF assms(2)]
  by (auto simp: done_child_def enter_fields)

lemma stack_inv_flag: "stack_inv s \<Longrightarrow> stack_inv (dfs_flag c s)"
  by (auto simp: stack_inv_def flag_fields)

lemma frame_flag: "frame s (dfs_flag c s)"
  by (auto simp: frame_def flag_fields)

lemma edge_inv_flag: "edge_inv g s \<Longrightarrow> edge_inv g (dfs_flag c s)"
  unfolding edge_inv_def finished_def done_child_def
  by (auto simp: flag_fields)

lemma flag_marks:
  assumes "stack_inv s" and "c \<in> dfs_on_stack s"
  shows "c \<in> dfs_cycle_nodes (dfs_flag c s) \<and> last (dfs_stack s) \<in> dfs_cycle_nodes (dfs_flag c s)"
proof -
  from assms obtain i where i: "i < length (dfs_stack s)" "dfs_stack s ! i = c"
    by (auto simp: stack_inv_def in_set_conv_nth)
  with assms(1) have p: "dfs_position s c = Some i"
    by (auto simp: stack_inv_def)
  from i have ne: "drop i (dfs_stack s) \<noteq> []" by simp
  have "c \<in> set (drop i (dfs_stack s))"
    using i by (metis Cons_nth_drop_Suc list.set_intros(1))
  moreover have "last (dfs_stack s) \<in> set (drop i (dfs_stack s))"
    using i ne by (metis last_drop last_in_set)
  ultimately show ?thesis using p by (simp add: flag_fields)
qed

lemma stack_inv_leave:
  assumes "stack_inv s" and "dfs_stack s = st @ [n]"
  shows "stack_inv (dfs_leave n s)"
    and "dfs_on_stack (dfs_leave n s) = set st"
proof -
  from assms have d: "distinct (st @ [n])" and os: "dfs_on_stack s = set (st @ [n])"
    by (auto simp: stack_inv_def)
  then have nst: "n \<notin> set st" by simp
  show os': "dfs_on_stack (dfs_leave n s) = set st"
    using os nst by (auto simp: leave_fields)
  have pos: "dfs_position (dfs_leave n s) (st ! i) = Some i" if "i < length st" for i
  proof -
    from that nst have "st ! i \<noteq> n" by (metis nth_mem)
    moreover from that assms have "dfs_position s ((st @ [n]) ! i) = Some i"
      by (simp add: stack_inv_def)
    moreover from that have "(st @ [n]) ! i = st ! i" by (simp add: nth_append)
    ultimately show ?thesis by (simp add: leave_fields)
  qed
  from assms have "dom (dfs_position s) = dfs_on_stack s" "dfs_on_stack s \<subseteq> dfs_visited s"
    by (auto simp: stack_inv_def)
  then show "stack_inv (dfs_leave n s)"
    unfolding stack_inv_def using os' d pos assms(2) os
    by (auto simp: leave_fields)
qed

lemma edge_inv_leave:
  assumes si: "stack_inv s" and ei: "edge_inv g s" and st: "dfs_stack s = st @ [n]"
    and ing: "in_graph g n"
    and dn: "\<forall>c\<in>set (graph_get g n). in_graph g c \<longrightarrow> done_child s n c"
  shows "edge_inv g (dfs_leave n s)"
proof -
  from si st have non: "n \<in> dfs_on_stack s" and nv: "n \<in> dfs_visited s"
    by (auto simp: stack_inv_def)
  have fin: "finished (dfs_leave n s) = insert n (finished s)"
    using non nv by (auto simp: finished_def leave_fields)
  have nf: "n \<notin> finished s" using non by (simp add: finished_def)
  have dc: "done_child (dfs_leave n s) m c" if "done_child s m c" for m c
    using that by (auto simp: done_child_def leave_fields)
  have part1: "done_child (dfs_leave n s) m c"
    if "m \<in> finished (dfs_leave n s)" "c \<in> set (graph_get g m)" "in_graph g c" for m c
  proof (cases "m = n")
    case True
    with that dn show ?thesis by (auto intro: dc)
  next
    case False
    with that fin have "m \<in> finished s" by simp
    with ei that show ?thesis by (auto simp: edge_inv_def intro: dc)
  qed
  have self: "n \<in> dfs_cycle_nodes s" if "n \<in> set (graph_get g n)"
    using that dn ing non by (auto simp: done_child_def)
  have cross: "b \<in> dfs_cycle_nodes s \<and> n \<in> dfs_cycle_nodes s"
    if "b \<in> finished s" "n \<in> set (graph_get g b)" for b
    using that ei ing non by (auto simp: edge_inv_def done_child_def)
  have part2: "a \<in> dfs_cycle_nodes (dfs_leave n s) \<and> b \<in> dfs_cycle_nodes (dfs_leave n s)"
    if "a \<in> finished (dfs_leave n s)" "b \<in> finished (dfs_leave n s)"
      "b \<in> set (graph_get g a)" "a \<in> set (graph_get g b)" for a b
  proof -
    consider "a = n" "b = n" | "a = n" "b \<noteq> n" | "a \<noteq> n" "b = n" | "a \<noteq> n" "b \<noteq> n"
      by blast
    then show ?thesis
    proof cases
      case 1
      with that self show ?thesis by (simp add: leave_fields)
    next
      case 2
      with that fin have "b \<in> finished s" by simp
      with 2 that cross [of b] show ?thesis by (simp add: leave_fields)
    next
      case 3
      with that fin have "a \<in> finished s" by simp
      with 3 that cross [of a] show ?thesis by (simp add: leave_fields)
    next
      case 4
      with that fin have "a \<in> finished s" "b \<in> finished s" by simp_all
      with ei that show ?thesis by (auto simp: edge_inv_def leave_fields)
    qed
  qed
  show ?thesis
    unfolding edge_inv_def using part1 part2 by blast
qed

lemma frame_enter_leave:
  assumes "stack_inv s" and "n \<notin> dfs_visited s" and "frame (dfs_enter n s) t"
  shows "frame s (dfs_leave n t)"
proof -
  from assms(1,2) have "n \<notin> dfs_on_stack s" "n \<notin> dom (dfs_position s)"
    by (auto simp: stack_inv_def)
  then have "(dfs_position s)(n := None) = dfs_position s"
    by (auto simp: domIff)
  with assms(3) \<open>n \<notin> dfs_on_stack s\<close> show ?thesis
    by (auto simp: frame_def enter_fields leave_fields)
qed

lemma dfs_correct:
  "stack_inv s \<Longrightarrow> edge_inv g s \<Longrightarrow> in_graph g n \<Longrightarrow> n \<notin> dfs_visited s
     \<Longrightarrow> dfs d g n s = Some s'
     \<Longrightarrow> stack_inv s' \<and> edge_inv g s' \<and> frame s s' \<and> n \<in> dfs_visited s'"
  and "stack_inv s \<Longrightarrow> edge_inv g s \<Longrightarrow> dfs_stack s \<noteq> []
     \<Longrightarrow> dfs_children d g cs s = Some s'
     \<Longrightarrow> stack_inv s' \<and> edge_inv g s' \<and> frame s s'
         \<and> (\<forall>c\<in>set cs. in_graph g c \<longrightarrow> done_child s' (last (dfs_stack s)) c)"
proof (induction d g n s and d g cs s arbitrary: s' and s' rule: dfs_dfs_children.induct)
  case (1 graph node s)
  then show ?case by simp
next
  case (2 depth graph node s)
  let ?e = "dfs_enter node s"
  from "2.prems"(5) obtain t where
    t: "dfs_children depth graph (graph_get graph node) ?e = Some t" and s': "s' = dfs_leave node t"
    by (auto split: option.splits)
  have e: "stack_inv ?e" "edge_inv graph ?e" "dfs_stack ?e \<noteq> []"
    using "2.prems" by (simp_all add: stack_inv_enter edge_inv_enter enter_fields)
  from "2.IH" [OF e t] have
    ti: "stack_inv t" "edge_inv graph t" and tf: "frame ?e t"
    and td: "\<forall>c\<in>set (graph_get graph node). in_graph graph c \<longrightarrow> done_child t (last (dfs_stack ?e)) c"
    by blast+
  from tf have tst: "dfs_stack t = dfs_stack s @ [node]"
    by (simp add: frame_def enter_fields)
  from td have td': "\<forall>c\<in>set (graph_get graph node). in_graph graph c \<longrightarrow> done_child t node c"
    by (simp add: enter_fields)
  have "stack_inv s'"
    unfolding s' using ti(1) tst by (rule stack_inv_leave)
  moreover have "edge_inv graph s'"
    unfolding s' using ti tst "2.prems"(3) td' by (rule edge_inv_leave)
  moreover have "frame s s'"
    unfolding s' using "2.prems"(1,4) tf by (rule frame_enter_leave)
  moreover have "node \<in> dfs_visited s'"
    using tf by (auto simp: s' frame_def enter_fields leave_fields)
  ultimately show ?case by blast
next
  case (3 depth graph s)
  then show ?case by (simp add: frame_refl)
next
  case (4 depth graph child rest s)
  let ?m = "last (dfs_stack s)"
  show ?case
  proof (cases "in_graph graph child")
    case False
    with "4.prems" have r: "dfs_children depth graph rest s = Some s'" by simp
    from "4.IH"(1) [OF False "4.prems"(1,2,3) r] False show ?thesis by auto
  next
    case ing: True
    show ?thesis
    proof (cases "child \<in> dfs_visited s")
      case False
      with ing "4.prems"(4) obtain t where
        t: "dfs depth graph child s = Some t" and r: "dfs_children depth graph rest t = Some s'"
        by (auto split: option.splits)
      from "4.IH"(2) [OF _ _ "4.prems"(1,2) ing False t] ing False
      have ti: "stack_inv t" "edge_inv graph t" and tf: "frame s t" and tv: "child \<in> dfs_visited t"
        by auto
      from tf "4.prems"(3) have tne: "dfs_stack t \<noteq> []" and tst: "dfs_stack t = dfs_stack s"
        by (auto simp: frame_def)
      from "4.IH"(3) [OF _ _ t ti tne r] ing False
      have si: "stack_inv s'" "edge_inv graph s'" and sf: "frame t s'"
        and sd: "\<forall>c\<in>set rest. in_graph graph c \<longrightarrow> done_child s' ?m c"
        by (auto simp: tst)
      from "4.prems"(1) False have "child \<notin> dfs_on_stack s" by (auto simp: stack_inv_def)
      with tf sf have "child \<notin> dfs_on_stack s'" by (simp add: frame_def)
      moreover from tv sf have "child \<in> dfs_visited s'" by (auto simp: frame_def)
      ultimately have "done_child s' ?m child" by (simp add: done_child_def)
      with si sd frame_trans [OF tf sf] show ?thesis by auto
    next
      case vis: True
      show ?thesis
      proof (cases "child \<in> dfs_on_stack s")
        case True
        let ?f = "dfs_flag child s"
        from ing vis True "4.prems"(4) have r: "dfs_children depth graph rest ?f = Some s'"
          by simp
        have f: "stack_inv ?f" "edge_inv graph ?f" "dfs_stack ?f \<noteq> []"
          using "4.prems" by (simp_all add: stack_inv_flag edge_inv_flag flag_fields)
        from "4.IH"(4) [OF _ _ _ f r] ing vis True
        have si: "stack_inv s'" "edge_inv graph s'" and sf: "frame ?f s'"
          and sd: "\<forall>c\<in>set rest. in_graph graph c \<longrightarrow> done_child s' ?m c"
          by (auto simp: flag_fields)
        from flag_marks [OF "4.prems"(1) True] vis
        have "done_child ?f ?m child" by (simp add: done_child_def flag_fields)
        then have "done_child s' ?m child" using sf by (rule done_child_frame)
        with si sd frame_trans [OF frame_flag sf] show ?thesis by auto
      next
        case False
        with ing vis "4.prems"(4) have r: "dfs_children depth graph rest s = Some s'" by simp
        from "4.IH"(5) [OF _ _ _ "4.prems"(1,2,3) r] ing vis False
        have si: "stack_inv s'" "edge_inv graph s'" and sf: "frame s s'"
          and sd: "\<forall>c\<in>set rest. in_graph graph c \<longrightarrow> done_child s' ?m c"
          by auto
        from vis False sf have "done_child s' ?m child"
          by (auto simp: done_child_def frame_def)
        with si sd sf show ?thesis by auto
      qed
    qed
  qed
qed

lemma dfs_cycle_mono:
  "dfs d g n s = Some s' \<Longrightarrow> dfs_cycle_nodes s \<subseteq> dfs_cycle_nodes s'"
  and dfs_children_cycle_mono:
    "dfs_children d g cs s = Some s' \<Longrightarrow> dfs_cycle_nodes s \<subseteq> dfs_cycle_nodes s'"
proof (induction d g n s and d g cs s arbitrary: s' and s' rule: dfs_dfs_children.induct)
  case (1 graph node s)
  then show ?case by simp
next
  case (2 depth graph node s)
  then obtain t where
    t: "dfs_children depth graph (graph_get graph node) (dfs_enter node s) = Some t"
    and s': "s' = dfs_leave node t"
    by (auto split: option.splits)
  from "2.IH" [OF t] show ?case by (simp add: s' enter_fields leave_fields)
next
  case (3 depth graph s)
  then show ?case by simp
next
  case (4 depth graph child rest s)
  show ?case
  proof (cases "in_graph graph child")
    case False
    with "4.prems" "4.IH"(1) show ?thesis by simp
  next
    case ing: True
    show ?thesis
    proof (cases "child \<in> dfs_visited s")
      case False
      with ing "4.prems" obtain t where
        t: "dfs depth graph child s = Some t" and r: "dfs_children depth graph rest t = Some s'"
        by (auto split: option.splits)
      from "4.IH"(2) [OF _ _ t] "4.IH"(3) [OF _ _ t r] ing False show ?thesis by auto
    next
      case vis: True
      show ?thesis
      proof (cases "child \<in> dfs_on_stack s")
        case True
        with ing vis "4.prems" have "dfs_children depth graph rest (dfs_flag child s) = Some s'"
          by simp
        from "4.IH"(4) [OF _ _ _ this] ing vis True show ?thesis by (auto simp: flag_fields)
      next
        case False
        with ing vis "4.prems" "4.IH"(5) show ?thesis by simp
      qed
    qed
  qed
qed

lemma card_unvisited_enter:
  assumes "in_graph g n" and "n \<notin> dfs_visited s"
    and "card (set (map fst g) - dfs_visited s) \<le> Suc d"
  shows "card (set (map fst g) - dfs_visited (dfs_enter n s)) \<le> d"
proof -
  have "set (map fst g) - dfs_visited (dfs_enter n s) = (set (map fst g) - dfs_visited s) - {n}"
    by (auto simp: enter_fields)
  moreover have "n \<in> set (map fst g) - dfs_visited s"
    using assms by (simp add: in_graph_def)
  ultimately have "card (set (map fst g) - dfs_visited (dfs_enter n s))
      = card (set (map fst g) - dfs_visited s) - 1"
    by (simp add: card_Diff_singleton)
  with assms(3) show ?thesis by simp
qed

lemma card_unvisited_mono:
  assumes "dfs_visited s \<subseteq> dfs_visited t"
  shows "card (set (map fst g) - dfs_visited t) \<le> card (set (map fst g) - dfs_visited s)"
  using assms by (intro card_mono) auto

lemma dfs_fuel:
  "in_graph g n \<Longrightarrow> n \<notin> dfs_visited s \<Longrightarrow> card (set (map fst g) - dfs_visited s) \<le> d
     \<Longrightarrow> \<exists>s'. dfs d g n s = Some s' \<and> dfs_visited s \<subseteq> dfs_visited s'"
  and "card (set (map fst g) - dfs_visited s) \<le> d
     \<Longrightarrow> \<exists>s'. dfs_children d g cs s = Some s' \<and> dfs_visited s \<subseteq> dfs_visited s'"
proof (induction d g n s and d g cs s rule: dfs_dfs_children.induct)
  case (1 graph node s)
  then have "node \<in> set (map fst graph) - dfs_visited s" by (simp add: in_graph_def)
  then have "card (set (map fst graph) - dfs_visited s) \<noteq> 0" by auto
  with 1 show ?case by simp
next
  case (2 depth graph node s)
  from "2.prems" have "card (set (map fst graph) - dfs_visited (dfs_enter node s)) \<le> depth"
    by (rule card_unvisited_enter)
  from "2.IH" [OF this] obtain t where
    t: "dfs_children depth graph (graph_get graph node) (dfs_enter node s) = Some t"
    and v: "dfs_visited (dfs_enter node s) \<subseteq> dfs_visited t"
    by blast
  from t v show ?case by (auto simp: enter_fields leave_fields)
next
  case (3 depth graph s)
  then show ?case by simp
next
  case (4 depth graph child rest s)
  show ?case
  proof (cases "in_graph graph child")
    case False
    with "4.IH"(1) "4.prems" show ?thesis by simp
  next
    case ing: True
    show ?thesis
    proof (cases "child \<in> dfs_visited s")
      case False
      from "4.IH"(2) [OF _ _ ing False "4.prems"] ing False obtain t where
        t: "dfs depth graph child s = Some t" and v: "dfs_visited s \<subseteq> dfs_visited t"
        by auto
      from v "4.prems" have "card (set (map fst graph) - dfs_visited t) \<le> depth"
        using card_unvisited_mono [OF v, of graph] by simp
      from "4.IH"(3) [OF _ _ t this] ing False obtain s' where
        "dfs_children depth graph rest t = Some s'" "dfs_visited t \<subseteq> dfs_visited s'"
        by auto
      with ing False t v show ?thesis by auto
    next
      case vis: True
      show ?thesis
      proof (cases "child \<in> dfs_on_stack s")
        case True
        from "4.prems" have "card (set (map fst graph) - dfs_visited (dfs_flag child s)) \<le> depth"
          by (simp add: flag_fields)
        from "4.IH"(4) [OF _ _ _ this] ing vis True show ?thesis
          by (auto simp: flag_fields)
      next
        case False
        with "4.IH"(5) "4.prems" ing vis show ?thesis by simp
      qed
    qed
  qed
qed

lemma dfs_roots_correct:
  assumes "stack_inv s" and "edge_inv g s" and "dfs_stack s = []"
    and "set nodes \<subseteq> set (map fst g)" and "length g \<le> limit"
  shows "\<exists>s'. dfs_roots limit g nodes s = Some s' \<and> stack_inv s' \<and> edge_inv g s'
           \<and> dfs_stack s' = [] \<and> set nodes \<union> dfs_visited s \<subseteq> dfs_visited s'"
  using assms
proof (induction nodes arbitrary: s)
  case Nil
  then show ?case by simp
next
  case (Cons node nodes)
  show ?case
  proof (cases "node \<in> dfs_visited s")
    case True
    with Cons.IH [of s] Cons.prems show ?thesis by auto
  next
    case False
    from Cons.prems have ing: "in_graph g node" by (simp add: in_graph_def)
    have "card (set (map fst g) - dfs_visited s) \<le> card (set (map fst g))"
      by (intro card_mono) auto
    also have "\<dots> \<le> length (map fst g)" by (rule card_length)
    finally have "card (set (map fst g) - dfs_visited s) \<le> limit"
      using Cons.prems(5) by simp
    from dfs_fuel(1) [OF ing False this] obtain t where
      t: "dfs limit g node s = Some t" by blast
    from dfs_correct(1) [OF Cons.prems(1,2) ing False t]
    have ti: "stack_inv t" "edge_inv g t" and tf: "frame s t" and tv: "node \<in> dfs_visited t"
      by blast+
    from tf Cons.prems(3) have tst: "dfs_stack t = []" by (simp add: frame_def)
    from Cons.IH [OF ti tst] Cons.prems obtain s' where
      "dfs_roots limit g nodes t = Some s'" "stack_inv s'" "edge_inv g s'" "dfs_stack s' = []"
      "set nodes \<union> dfs_visited t \<subseteq> dfs_visited s'"
      by auto
    with False t tv tf show ?thesis by (auto simp: frame_def)
  qed
qed

lemma dfs_init_inv: "stack_inv dfs_init" "edge_inv g dfs_init" "dfs_stack dfs_init = []"
  by (simp_all add: stack_inv_def edge_inv_def finished_def dfs_init_def)

lemma detect_mutual:
  assumes "in_graph g a" and "in_graph g b"
    and "b \<in> set (graph_get g a)" and "a \<in> set (graph_get g b)" and "length g \<le> limit"
  shows "\<exists>cyc. detect_cycle_nodes limit g = Some cyc \<and> a \<in> cyc \<and> b \<in> cyc"
proof -
  from dfs_roots_correct [OF dfs_init_inv subset_refl assms(5)] obtain s' where
    r: "dfs_roots limit g (map fst g) dfs_init = Some s'"
    and inv: "stack_inv s'" "edge_inv g s'" and st: "dfs_stack s' = []"
    and v: "set (map fst g) \<subseteq> dfs_visited s'"
    by auto
  from inv(1) st have "dfs_on_stack s' = {}" by (simp add: stack_inv_def)
  with v assms(1,2) have "a \<in> finished s'" "b \<in> finished s'"
    by (auto simp: finished_def in_graph_def)
  with inv(2) assms(3,4) have "a \<in> dfs_cycle_nodes s' \<and> b \<in> dfs_cycle_nodes s'"
    by (auto simp: edge_inv_def)
  with r show ?thesis by (simp add: detect_cycle_nodes_def)
qed

text \<open>
  C5: when the loop over the children meets a child that is a graph node, visited and
  on the stack, the stack from that child's recorded position to the top is in the
  cycle set of every state the loop ends in. And for every graph and every recursion
  limit that is at least the number of graph nodes, the detector returns, and two
  distinct graph nodes that include each other are both in the set it returns.
\<close>

theorem C5_cycle_detection:
  "(in_graph g child \<and> child \<in> dfs_visited s \<and> child \<in> dfs_on_stack s \<longrightarrow>
      (\<forall>s'. dfs_children d g (child # rest) s = Some s' \<longrightarrow>
         set (drop (case dfs_position s child of Some i \<Rightarrow> i | None \<Rightarrow> 0) (dfs_stack s))
           \<subseteq> dfs_cycle_nodes s'))
   \<and> (in_graph g a \<and> in_graph g b \<and> a \<noteq> b
        \<and> b \<in> set (graph_get g a) \<and> a \<in> set (graph_get g b) \<and> length g \<le> limit \<longrightarrow>
        (\<exists>cyc. detect_cycle_nodes limit g = Some cyc \<and> a \<in> cyc \<and> b \<in> cyc))"
proof (intro conjI impI allI)
  fix s'
  assume h: "in_graph g child \<and> child \<in> dfs_visited s \<and> child \<in> dfs_on_stack s"
    and r: "dfs_children d g (child # rest) s = Some s'"
  then have "dfs_children d g rest (dfs_flag child s) = Some s'" by simp
  then have "dfs_cycle_nodes (dfs_flag child s) \<subseteq> dfs_cycle_nodes s'"
    by (rule dfs_children_cycle_mono)
  then show "set (drop (case dfs_position s child of Some i \<Rightarrow> i | None \<Rightarrow> 0) (dfs_stack s))
           \<subseteq> dfs_cycle_nodes s'"
    by (simp add: flag_fields)
next
  assume "in_graph g a \<and> in_graph g b \<and> a \<noteq> b
        \<and> b \<in> set (graph_get g a) \<and> a \<in> set (graph_get g b) \<and> length g \<le> limit"
  then show "\<exists>cyc. detect_cycle_nodes limit g = Some cyc \<and> a \<in> cyc \<and> b \<in> cyc"
    by (intro detect_mutual) auto
qed

lemma example_cycle_facts:
  "in_graph example_cycle_graph (Path ''/p/include/core/cycle_a.hpp'')
   \<and> in_graph example_cycle_graph (Path ''/p/include/core/cycle_b.hpp'')
   \<and> Path ''/p/include/core/cycle_a.hpp'' \<noteq> Path ''/p/include/core/cycle_b.hpp''
   \<and> Path ''/p/include/core/cycle_b.hpp''
        \<in> set (graph_get example_cycle_graph (Path ''/p/include/core/cycle_a.hpp''))
   \<and> Path ''/p/include/core/cycle_a.hpp''
        \<in> set (graph_get example_cycle_graph (Path ''/p/include/core/cycle_b.hpp''))
   \<and> length example_cycle_graph \<le> 10"
  by code_simp

lemma example_cycle_state:
  "in_graph example_cycle_graph (Path ''/p/include/core/cycle_a.hpp'')
   \<and> Path ''/p/include/core/cycle_a.hpp''
        \<in> dfs_visited (dfs_enter (Path ''/p/include/core/cycle_b.hpp'')
             (dfs_enter (Path ''/p/include/core/cycle_a.hpp'') dfs_init))
   \<and> Path ''/p/include/core/cycle_a.hpp''
        \<in> dfs_on_stack (dfs_enter (Path ''/p/include/core/cycle_b.hpp'')
             (dfs_enter (Path ''/p/include/core/cycle_a.hpp'') dfs_init))
   \<and> map_option dfs_cycle_nodes
        (dfs_children 5 example_cycle_graph [Path ''/p/include/core/cycle_a.hpp'']
           (dfs_enter (Path ''/p/include/core/cycle_b.hpp'')
              (dfs_enter (Path ''/p/include/core/cycle_a.hpp'') dfs_init)))
       = Some {Path ''/p/include/core/cycle_a.hpp'', Path ''/p/include/core/cycle_b.hpp''}
   \<and> detect_cycle_nodes 10 example_cycle_graph
       = Some {Path ''/p/include/core/cycle_a.hpp'', Path ''/p/include/core/cycle_b.hpp''}"
  by code_simp

theorem C5_cycle_detection_witness:
  "in_graph example_cycle_graph (Path ''/p/include/core/cycle_a.hpp'')
   \<and> in_graph example_cycle_graph (Path ''/p/include/core/cycle_b.hpp'')
   \<and> Path ''/p/include/core/cycle_a.hpp'' \<noteq> Path ''/p/include/core/cycle_b.hpp''
   \<and> Path ''/p/include/core/cycle_b.hpp''
        \<in> set (graph_get example_cycle_graph (Path ''/p/include/core/cycle_a.hpp''))
   \<and> Path ''/p/include/core/cycle_a.hpp''
        \<in> set (graph_get example_cycle_graph (Path ''/p/include/core/cycle_b.hpp''))
   \<and> length example_cycle_graph \<le> 10
   \<and> (\<exists>cyc. detect_cycle_nodes 10 example_cycle_graph = Some cyc
         \<and> Path ''/p/include/core/cycle_a.hpp'' \<in> cyc
         \<and> Path ''/p/include/core/cycle_b.hpp'' \<in> cyc)
   \<and> Path ''/p/include/core/cycle_a.hpp''
        \<in> dfs_on_stack (dfs_enter (Path ''/p/include/core/cycle_b.hpp'')
             (dfs_enter (Path ''/p/include/core/cycle_a.hpp'') dfs_init))
   \<and> map_option dfs_cycle_nodes
        (dfs_children 5 example_cycle_graph [Path ''/p/include/core/cycle_a.hpp'']
           (dfs_enter (Path ''/p/include/core/cycle_b.hpp'')
              (dfs_enter (Path ''/p/include/core/cycle_a.hpp'') dfs_init)))
       = Some {Path ''/p/include/core/cycle_a.hpp'', Path ''/p/include/core/cycle_b.hpp''}"
  using C5_cycle_detection [of example_cycle_graph "Path ''/p/include/core/cycle_a.hpp''"
      "dfs_enter (Path ''/p/include/core/cycle_b.hpp'')
         (dfs_enter (Path ''/p/include/core/cycle_a.hpp'') dfs_init)"
      5 "[]" "Path ''/p/include/core/cycle_a.hpp''" "Path ''/p/include/core/cycle_b.hpp''" 10]
    example_cycle_facts example_cycle_state
  by blast

subsection \<open>Determinism across runs\<close>

text \<open>
  C9 says that two runs on the same compile database and source tree give the same
  report, with the same cycle-node set. The children of a node are a Python
  \<^verbatim>\<open>set\<close> of paths, whose iteration order follows the hashes of the path strings,
  and these change from one process to the next. The two graphs below are the same
  dictionary of sets; iterating the set of \<open>a.hpp\<close> as \<open>b, c\<close> flags all three
  headers, iterating it as \<open>c, b\<close> flags only \<open>a.hpp\<close> and \<open>c.hpp\<close>.
\<close>

theorem C9_iteration_order_changes_cycle_nodes:
  "map (\<lambda>(node, children). (node, set children)) example_graph_bc
     = map (\<lambda>(node, children). (node, set children)) example_graph_cb
   \<and> detect_cycle_nodes 10 example_graph_bc
       = Some {Path ''/p/a.hpp'', Path ''/p/b.hpp'', Path ''/p/c.hpp''}
   \<and> detect_cycle_nodes 10 example_graph_cb = Some {Path ''/p/a.hpp'', Path ''/p/c.hpp''}
   \<and> detect_cycle_nodes 10 example_graph_bc \<noteq> detect_cycle_nodes 10 example_graph_cb"
  by code_simp

end
